theory Spec2Isabelle
  imports Complex_Main "HOL-Library.Word"
begin

section \<open>Result codes and the communicator\<close>

text \<open>The values of \<^verbatim>\<open>ncclResult_t\<close> that \<^verbatim>\<open>src/init.cc\<close> produces or names
  (see \<^verbatim>\<open>ncclGetErrorString\<close>).\<close>

datatype ncclResult =
    ncclSuccess
  | ncclUnhandledCudaError
  | ncclSystemError
  | ncclInternalError
  | ncclInvalidArgument
  | ncclInvalidUsage

text \<open>Pointer values. \<open>0\<close> is \<^verbatim>\<open>NULL\<close>.\<close>

type_synonym addr = nat

text \<open>A sequence of statements each wrapped in \<^verbatim>\<open>NCCLCHECK\<close> or \<^verbatim>\<open>CUDACHECK\<close>: the
  first one that does not return \<^verbatim>\<open>ncclSuccess\<close> ends the function with its result, and
  the state is what the statements before it left.\<close>

fun run_steps :: "('s \<Rightarrow> ncclResult \<times> 's) list \<Rightarrow> 's \<Rightarrow> ncclResult \<times> 's" where
  "run_steps [] s = (ncclSuccess, s)"
| "run_steps (f # fs) s =
     (case f s of (r, s') \<Rightarrow> if r = ncclSuccess then run_steps fs s' else (r, s'))"

text \<open>The members of \<^verbatim>\<open>struct ncclConnector\<close>, \<^verbatim>\<open>struct ncclPeer\<close> and
  \<^verbatim>\<open>struct ncclChannel\<close> that \<^verbatim>\<open>src/init.cc\<close> reads or writes.  \<open>userRanks\<close> is
  \<^verbatim>\<open>channel->ring.userRanks\<close>; \<open>peers\<close> has one entry per rank and one more for the
  collective-network root.\<close>

record ncclConnector =
  transportComm :: addr
  transportResources :: addr

record ncclPeer =
  send :: ncclConnector
  recv :: ncclConnector

record ncclChannel =
  chan_id :: int
  userRanks :: "int list"
  peers :: "ncclPeer list"

datatype ncclLaunchMode = GROUP | PARALLEL

text \<open>The members of \<^verbatim>\<open>struct ncclComm\<close> used by the functions modelled below.  The array
  \<open>channels\<close> has \<^verbatim>\<open>MAXCHANNELS\<close> entries; pointer members hold addresses.\<close>

record ncclComm =
  channels :: "ncclChannel list"
  peerInfo :: addr
  topo :: addr
  bootstrap :: addr
  connectSend :: addr
  connectRecv :: addr
  p2pSends :: addr
  p2pRecvs :: addr
  asyncOps :: addr
  rank :: int
  nRanks :: int
  cudaDev :: int
  busId :: int
  nNodes :: int
  node :: int
  nChannels :: int
  doneEvent :: addr
  launchMode :: ncclLaunchMode
  groupStream :: addr
  abortFlag :: addr
  p2pNet :: addr
  hostDevComm_channels :: addr
  devComm :: addr
  intraBarrier :: addr
  intraParams :: addr
  intraCudaDevs :: addr
  intraCGMode :: addr
  intraCC :: addr
  collNetSupport :: int
  cliqueManager :: addr

section \<open>Ring rotation: setupChannel\<close>

text \<open>The first loop of \<^verbatim>\<open>setupChannel\<close>:
  \<^verbatim>\<open>for (shift = 0; shift<nranks; shift++) if (ringRanks[shift] == rank) break;\<close>
  started at an arbitrary value of \<^verbatim>\<open>shift\<close>.  When no entry equals \<^verbatim>\<open>rank\<close> the
  loop ends with \<^verbatim>\<open>shift = nranks\<close>.\<close>

function shift_loop :: "int list \<Rightarrow> int \<Rightarrow> nat \<Rightarrow> nat \<Rightarrow> nat" where
  "shift_loop ringRanks myrank nranks shift =
     (if shift < nranks
      then (if ringRanks ! shift = myrank then shift
            else shift_loop ringRanks myrank nranks (Suc shift))
      else shift)"
  by pat_completeness auto
termination
  by (relation "measure (\<lambda>(ringRanks, myrank, nranks, shift). nranks - shift)") auto

declare shift_loop.simps [simp del]

text \<open>The second loop:
  \<^verbatim>\<open>for (int i=0; i<nranks; i++) ring->userRanks[i] = ringRanks[(i+shift)%nranks];\<close>
  as successive writes into the array \<^verbatim>\<open>userRanks\<close>.  Both operands of \<^verbatim>\<open>%\<close> are
  non-negative, and \<^verbatim>\<open>i+shift\<close> stays below \<^verbatim>\<open>2*nranks\<close>, which fits an \<^verbatim>\<open>int\<close>
  because the caller has already allocated \<^verbatim>\<open>nranks*MAXCHANNELS\<close> ring entries.\<close>

definition rotate_loop :: "int list \<Rightarrow> nat \<Rightarrow> nat \<Rightarrow> int list \<Rightarrow> int list" where
  "rotate_loop ringRanks nranks shift ur =
     fold (\<lambda>i ur. ur[i := ringRanks ! ((i + shift) mod nranks)]) [0..<nranks] ur"

text \<open>\<^verbatim>\<open>setupChannel\<close>.  \<^verbatim>\<open>initChannel\<close> lives in another file of the library; it is a
  parameter here, returning its result code and the communicator as it leaves it.\<close>

definition setupChannel ::
  "(ncclComm \<Rightarrow> nat \<Rightarrow> ncclResult \<times> ncclComm) \<Rightarrow> ncclComm \<Rightarrow> nat \<Rightarrow> int \<Rightarrow> nat \<Rightarrow> int list
     \<Rightarrow> ncclResult \<times> ncclComm" where
  "setupChannel initChannel comm channelId myrank nranks ringRanks =
     (case initChannel comm channelId of (res, comm1) \<Rightarrow>
        if res \<noteq> ncclSuccess then (res, comm1)
        else
          let shift = shift_loop ringRanks myrank nranks 0;
              ch = channels comm1 ! channelId;
              ch' = ch\<lparr>userRanks := rotate_loop ringRanks nranks shift (userRanks ch)\<rparr>
          in (ncclSuccess, comm1\<lparr>channels := (channels comm1)[channelId := ch']\<rparr>))"

section \<open>AllGather3: the gathered record and the local graphs\<close>

text \<open>The values of a C \<^verbatim>\<open>float\<close>: not-a-number, the two infinities and the finite
  values (a finite \<^verbatim>\<open>float\<close> is a rational number; the two zeros compare equal and are one
  value here).  \<open>float_less\<close> is the operator \<^verbatim>\<open><\<close>: false as soon as one side is
  not-a-number.\<close>

datatype cfloat = FNaN | FNegInf | FFin rat | FPosInf

fun float_less :: "cfloat \<Rightarrow> cfloat \<Rightarrow> bool" where
  "float_less FNaN y = False"
| "float_less x FNaN = False"
| "float_less FNegInf FNegInf = False"
| "float_less FNegInf y = True"
| "float_less (FFin a) (FFin b) = (a < b)"
| "float_less (FFin a) FPosInf = True"
| "float_less (FFin a) FNegInf = False"
| "float_less FPosInf y = False"

text \<open>\<^verbatim>\<open>std::min(a, b)\<close> is \<^verbatim>\<open>(b < a) ? b : a\<close>, for the \<^verbatim>\<open><\<close> of the argument type.\<close>

definition std_min :: "('a \<Rightarrow> 'a \<Rightarrow> bool) \<Rightarrow> 'a \<Rightarrow> 'a \<Rightarrow> 'a" where
  "std_min lt a b = (if lt b a then b else a)"

text \<open>\<^verbatim>\<open>struct ncclGraphInfo\<close>, declared inside \<^verbatim>\<open>initTransportsRank\<close>.\<close>

record ncclGraphInfo =
  pattern :: int
  sameChannels :: int
  speedIntra :: cfloat
  speedInter :: cfloat
  typeIntra :: int
  typeInter :: int

text \<open>Of \<^verbatim>\<open>struct ncclTopoRanks\<close> the function reads \<^verbatim>\<open>ringRecv[0]\<close> only; the array has
  \<^verbatim>\<open>MAXCHANNELS\<close> entries.\<close>

record ncclTopoRanks =
  ringRecv :: "int list"

text \<open>One element of \<^verbatim>\<open>allGather3Data\<close>.\<close>

record allGather3Data =
  ag3_cudaCompCap :: int
  ag3_fullCudaCompCap :: int
  ag3_nChannels :: int
  ag3_gcn :: int
  ag3_tree :: ncclGraphInfo
  ag3_ring :: ncclGraphInfo
  ag3_collNet :: ncclGraphInfo
  ag3_topoRanks :: ncclTopoRanks

text \<open>The members of \<^verbatim>\<open>struct ncclTopoGraph\<close> that take part in AllGather3.\<close>

record ncclTopoGraph =
  tg_pattern :: int
  tg_nChannels :: int
  tg_sameChannels :: int
  tg_speedIntra :: cfloat
  tg_speedInter :: cfloat
  tg_typeIntra :: int
  tg_typeInter :: int

text \<open>The local variables of \<^verbatim>\<open>initTransportsRank\<close> that live across AllGather3.\<close>

record ag3_locals =
  treeGraph :: ncclTopoGraph
  ringGraph :: ncclTopoGraph
  collNetGraph :: ncclTopoGraph
  gcn :: int
  nodesFirstRank :: "int list"
  nodesTreePatterns :: "int list"
  nChannelsOrig :: int

text \<open>The six assignments that copy one graph into the record to publish.\<close>

definition graphInfo_of :: "ncclTopoGraph \<Rightarrow> ncclGraphInfo" where
  "graphInfo_of g =
     \<lparr>pattern = tg_pattern g, sameChannels = tg_sameChannels g,
      speedIntra = tg_speedIntra g, speedInter = tg_speedInter g,
      typeIntra = tg_typeIntra g, typeInter = tg_typeInter g\<rparr>"

text \<open>Filling \<^verbatim>\<open>allGather3Data[rank]\<close>.  The compute capability and \<^verbatim>\<open>gcn\<close> come from
  the topology and the ring descriptor from \<^verbatim>\<open>ncclTopoPreset\<close>; they are parameters
  (\<^verbatim>\<open>ncclTopoPreset\<close> reads the three graphs and is taken to leave them as they are).  The
  chained assignment sets the channel count of the communicator and of the ring and tree
  graphs to the smaller of the two graphs' counts.  \<^verbatim>\<open>fullCudaCompCap\<close> is never written
  and keeps the zero of \<^verbatim>\<open>ncclCalloc\<close>.\<close>

definition allGather3_fill ::
  "int \<Rightarrow> int \<Rightarrow> ncclTopoRanks \<Rightarrow> ncclComm \<times> ag3_locals
     \<Rightarrow> allGather3Data \<times> (ncclComm \<times> ag3_locals)" where
  "allGather3_fill cap gcn_gpu tr st =
     (case st of (comm, l) \<Rightarrow>
        let n = std_min (<) (tg_nChannels (treeGraph l)) (tg_nChannels (ringGraph l));
            l1 = l\<lparr>ringGraph := (ringGraph l)\<lparr>tg_nChannels := n\<rparr>,
                   treeGraph := (treeGraph l)\<lparr>tg_nChannels := n\<rparr>\<rparr>
        in (\<lparr>ag3_cudaCompCap = cap, ag3_fullCudaCompCap = 0, ag3_nChannels = n,
             ag3_gcn = gcn_gpu,
             ag3_tree = graphInfo_of (treeGraph l1),
             ag3_ring = graphInfo_of (ringGraph l1),
             ag3_collNet = graphInfo_of (collNetGraph l1),
             ag3_topoRanks = tr\<rparr>,
            (comm\<lparr>nChannels := n\<rparr>, l1)))"

section \<open>AllGather3: node grouping\<close>

text \<open>The inner loop
  \<^verbatim>\<open>for (int n=0; n<comm->nNodes; n++) if (nodesFirstRank[n] == firstRank) node = n;\<close>
  with \<^verbatim>\<open>node\<close> starting at \<open>-1\<close>.\<close>

definition find_node :: "int list \<Rightarrow> int \<Rightarrow> int \<Rightarrow> int" where
  "find_node nfr nnodes firstRank =
     fold (\<lambda>n nd. if nfr ! n = firstRank then int n else nd) [0..<nat nnodes] (- 1)"

text \<open>One iteration of the outer loop, for the record of rank \<open>i\<close>.\<close>

definition node_step ::
  "allGather3Data list \<Rightarrow> nat \<Rightarrow> ncclComm \<times> ag3_locals \<Rightarrow> ncclComm \<times> ag3_locals" where
  "node_step ag i st =
     (case st of (comm, l) \<Rightarrow>
        let firstRank = ringRecv (ag3_topoRanks (ag ! i)) ! 0;
            found = find_node (nodesFirstRank l) (nNodes comm) firstRank;
            nd = (if found = - 1 then nNodes comm else found);
            comm1 = (if found = - 1 then comm\<lparr>nNodes := nNodes comm + 1\<rparr> else comm);
            l1 = (if found = - 1
                  then l\<lparr>nodesFirstRank := (nodesFirstRank l)[nat nd := firstRank],
                         nodesTreePatterns :=
                           (nodesTreePatterns l)[nat nd := pattern (ag3_tree (ag ! i))]\<rparr>
                  else l)
        in (if int i = rank comm1 then comm1\<lparr>node := nd\<rparr> else comm1, l1))"

text \<open>The whole loop, after the two \<^verbatim>\<open>ncclCalloc\<close> calls that give the zeroed arrays of
  \<^verbatim>\<open>nranks\<close> entries.  The gathered array has one record per rank.\<close>

definition node_grouping ::
  "allGather3Data list \<Rightarrow> ncclComm \<times> ag3_locals \<Rightarrow> ncclComm \<times> ag3_locals" where
  "node_grouping ag st =
     (case st of (comm, l) \<Rightarrow>
        fold (node_step ag) [0..<length ag]
          (comm, l\<lparr>nodesFirstRank := replicate (length ag) 0,
                   nodesTreePatterns := replicate (length ag) 0\<rparr>))"

section \<open>AllGather3: reconciliation\<close>

text \<open>The five \<^verbatim>\<open>std::min\<close> assignments for one graph.\<close>

definition reconcile_graph :: "ncclGraphInfo \<Rightarrow> ncclTopoGraph \<Rightarrow> ncclTopoGraph" where
  "reconcile_graph gi g =
     g\<lparr>tg_sameChannels := std_min (<) (sameChannels gi) (tg_sameChannels g),
       tg_speedIntra := std_min float_less (speedIntra gi) (tg_speedIntra g),
       tg_speedInter := std_min float_less (speedInter gi) (tg_speedInter g),
       tg_typeIntra := std_min (<) (typeIntra gi) (tg_typeIntra g),
       tg_typeInter := std_min (<) (typeInter gi) (tg_typeInter g)\<rparr>"

text \<open>The body of the reconciliation loop for the record \<open>d\<close> of one rank.\<close>

definition reconcile_step ::
  "allGather3Data \<Rightarrow> ncclComm \<times> ag3_locals \<Rightarrow> ncclComm \<times> ag3_locals" where
  "reconcile_step d st =
     (case st of (comm, l) \<Rightarrow>
        let n = std_min (<) (ag3_nChannels d) (nChannels comm)
        in (comm\<lparr>nChannels := n\<rparr>,
            l\<lparr>gcn := std_min (<) (ag3_gcn d) (gcn l),
              treeGraph := reconcile_graph (ag3_tree d) ((treeGraph l)\<lparr>tg_nChannels := n\<rparr>),
              ringGraph := reconcile_graph (ag3_ring d) ((ringGraph l)\<lparr>tg_nChannels := n\<rparr>),
              collNetGraph := reconcile_graph (ag3_collNet d) (collNetGraph l)\<rparr>))"

text \<open>\<^verbatim>\<open>nChannelsOrig = comm->nChannels\<close>, \<^verbatim>\<open>gcn = allGather3Data[0].gcn\<close>, then the loop over
  all ranks' records.\<close>

definition reconcile ::
  "allGather3Data list \<Rightarrow> ncclComm \<times> ag3_locals \<Rightarrow> ncclComm \<times> ag3_locals" where
  "reconcile ag st =
     (case st of (comm, l) \<Rightarrow>
        fold reconcile_step ag
          (comm, l\<lparr>nChannelsOrig := nChannels comm, gcn := ag3_gcn (ag ! 0)\<rparr>))"

section \<open>AllGather3: moving the duplicated channels\<close>

text \<open>\<^verbatim>\<open>if (comm->nChannels < nChannelsOrig)
  for (int i=0; i<comm->nChannels; i++)
    memcpy(comm->channels+comm->nChannels+i, comm->channels+nChannelsOrig+i, sizeof(struct ncclChannel));\<close>
  one \<^verbatim>\<open>memcpy\<close> after the other on the array \<^verbatim>\<open>comm->channels\<close>.\<close>

definition compact_channels :: "ncclComm \<times> ag3_locals \<Rightarrow> ncclComm \<times> ag3_locals" where
  "compact_channels st =
     (case st of (comm, l) \<Rightarrow>
        if nChannels comm < nChannelsOrig l
        then (comm\<lparr>channels :=
                fold (\<lambda>i chs. chs[nat (nChannels comm + int i) :=
                                   chs ! nat (nChannelsOrig l + int i)])
                  [0..<nat (nChannels comm)] (channels comm)\<rparr>, l)
        else (comm, l))"

section \<open>AllGather1: storing the peer information and the duplicate-device check\<close>

text \<open>\<^verbatim>\<open>struct ncclPeerInfo\<close> with the members \<^verbatim>\<open>fillInfo\<close> writes (\<open>pi_rank\<close>,
  \<open>pi_cudaDev\<close> and \<open>pi_busId\<close> are its \<^verbatim>\<open>rank\<close>, \<^verbatim>\<open>cudaDev\<close> and \<^verbatim>\<open>busId\<close>), and one
  element of \<^verbatim>\<open>allGather1Data\<close>.\<close>

record ncclPeerInfo =
  pi_rank :: int
  pi_cudaDev :: int
  hostHash :: "64 word"
  pidHash :: "64 word"
  shmDev :: "64 word"
  pi_busId :: int
  gdrSupport :: int

record allGather1Data =
  ag1_peerInfo :: ncclPeerInfo
  ag1_comm :: addr
  ag1_cudaCompCap :: int

text \<open>The loop over the gathered array, from index list \<open>is\<close> on: copy record \<open>i\<close> into
  \<^verbatim>\<open>comm->peerInfo[i]\<close>, then return \<^verbatim>\<open>ncclInvalidUsage\<close> if another rank's entry has the
  host hash and bus id of \<^verbatim>\<open>myInfo\<close>.\<close>

fun peerInfo_loop ::
  "nat list \<Rightarrow> int \<Rightarrow> ncclPeerInfo \<Rightarrow> allGather1Data list \<Rightarrow> ncclPeerInfo list
     \<Rightarrow> ncclResult \<times> ncclPeerInfo list" where
  "peerInfo_loop [] myrank myInfo ag pinfo = (ncclSuccess, pinfo)"
| "peerInfo_loop (i # is) myrank myInfo ag pinfo =
     (let pinfo1 = pinfo[i := ag1_peerInfo (ag ! i)]
      in if int i \<noteq> myrank \<and> hostHash (pinfo1 ! i) = hostHash myInfo
            \<and> pi_busId (pinfo1 ! i) = pi_busId myInfo
         then (ncclInvalidUsage, pinfo1)
         else peerInfo_loop is myrank myInfo ag pinfo1)"

text \<open>\<^verbatim>\<open>comm->peerInfo\<close> comes zeroed from \<^verbatim>\<open>ncclCalloc\<close> with \<^verbatim>\<open>nranks+1\<close> entries, and
  \<^verbatim>\<open>myInfo\<close> points at the own element of the gathered array.\<close>

definition calloc_peerInfo :: ncclPeerInfo where
  "calloc_peerInfo =
     \<lparr>pi_rank = 0, pi_cudaDev = 0, hostHash = 0, pidHash = 0, shmDev = 0, pi_busId = 0,
      gdrSupport = 0\<rparr>"

definition allGather1_check :: "int \<Rightarrow> allGather1Data list \<Rightarrow> ncclResult \<times> ncclPeerInfo list" where
  "allGather1_check myrank ag =
     peerInfo_loop [0..<length ag] myrank (ag1_peerInfo (ag ! nat myrank)) ag
       (replicate (length ag + 1) calloc_peerInfo)"

text \<open>\<^verbatim>\<open>initTransportsRank\<close> from the end of AllGather1 on.  Everything after the check
  (topology, AllGather3, the transport connections) is the parameter \<open>rest\<close>, acting on
  the state \<open>w\<close> of the rest of the process; it runs only when the check has passed.\<close>

definition initTransportsRank_after_allGather1 ::
  "int \<Rightarrow> allGather1Data list \<Rightarrow> (ncclPeerInfo list \<Rightarrow> 'w \<Rightarrow> ncclResult \<times> 'w) \<Rightarrow> 'w
     \<Rightarrow> ncclResult \<times> 'w" where
  "initTransportsRank_after_allGather1 myrank ag rest w =
     (case allGather1_check myrank ag of (res, pinfo) \<Rightarrow>
        if res \<noteq> ncclSuccess then (res, w) else rest pinfo w)"

section \<open>The process state outside the communicator\<close>

text \<open>What a call hands back to the system, in the order of the calls: memory given to
  \<^verbatim>\<open>free\<close>, \<^verbatim>\<open>hipFree\<close> or \<^verbatim>\<open>ncclCudaHostFree\<close>, the topology, the bootstrap state, a
  channel (by its index), an event, a stream, the clique manager, the proxy state, a
  transport resource (with the \<^verbatim>\<open>transportComm\<close> whose \<^verbatim>\<open>free\<close> is called) and the
  communicator structure itself.\<close>

datatype resource =
    HostMem addr
  | DeviceMem addr
  | PinnedMem addr
  | Topology addr
  | BootstrapState addr
  | ChannelSlot nat
  | Event addr
  | Stream addr
  | Clique addr
  | ProxyState
  | TransportRes addr addr
  | CommStruct

text \<open>The list of releases so far, the current device of the calling thread, and the words
  of pinned host memory (the abort flag is one of them).\<close>

record world =
  released :: "resource list"
  device :: int
  pinned :: "addr \<Rightarrow> 32 word"

section \<open>Collective-network fallback: checkCollNetSetup\<close>

text \<open>The calls that leave this file: the result of
  \<^verbatim>\<open>ncclCalloc(&allGatherFailures, nranks)\<close>, \<^verbatim>\<open>bootstrapAllGather\<close> (from the buffer
  handed in to its result code and the buffer as gathered) and the \<^verbatim>\<open>free\<close> member of a
  \<^verbatim>\<open>transportComm\<close> applied to a resource.\<close>

record collnet_env =
  ce_calloc :: ncclResult
  ce_allGather :: "int list \<Rightarrow> ncclResult \<times> int list"
  ce_free :: "addr \<Rightarrow> addr \<Rightarrow> ncclResult"

text \<open>\<^verbatim>\<open>for (int i=0; i<nranks; i++) if (allGatherFailures[i] != 0) { collNetSetupFail = 1; break; }\<close>\<close>

fun any_failure :: "int list \<Rightarrow> int \<Rightarrow> int" where
  "any_failure [] collNetSetupFail = collNetSetupFail"
| "any_failure (f # fs) collNetSetupFail = (if f \<noteq> 0 then 1 else any_failure fs collNetSetupFail)"

text \<open>\<^verbatim>\<open>if (conn.transportResources && conn.transportComm) NCCLCHECK(conn.transportComm->free(conn.transportResources));\<close>
  gives the result of the call, which is recorded whatever its result.\<close>

definition free_connector :: "collnet_env \<Rightarrow> ncclConnector \<Rightarrow> world \<Rightarrow> ncclResult \<times> world" where
  "free_connector env conn w =
     (if transportResources conn \<noteq> 0 \<and> transportComm conn \<noteq> 0
      then (ce_free env (transportComm conn) (transportResources conn),
            w\<lparr>released := released w @ [TransportRes (transportComm conn) (transportResources conn)]\<rparr>)
      else (ncclSuccess, w))"

text \<open>The body of the loop over the channels: the peer slot \<^verbatim>\<open>channel->peers+nranks\<close> is
  the collective-network root; both resources are freed, then both pointers are cleared.\<close>

definition free_collnet_channel ::
  "collnet_env \<Rightarrow> nat \<Rightarrow> nat \<Rightarrow> ncclComm \<times> world \<Rightarrow> ncclResult \<times> (ncclComm \<times> world)" where
  "free_collnet_channel env nranks r st =
     (case st of (comm, w) \<Rightarrow>
        let channel = channels comm ! r;
            peer = peers channel ! nranks
        in case free_connector env (send peer) w of (res1, w1) \<Rightarrow>
             if res1 \<noteq> ncclSuccess then (res1, (comm, w1))
             else case free_connector env (recv peer) w1 of (res2, w2) \<Rightarrow>
               if res2 \<noteq> ncclSuccess then (res2, (comm, w2))
               else
                 let peer' = peer\<lparr>send := (send peer)\<lparr>transportResources := 0\<rparr>,
                                  recv := (recv peer)\<lparr>transportResources := 0\<rparr>\<rparr>;
                     channel' = channel\<lparr>peers := (peers channel)[nranks := peer']\<rparr>
                 in (ncclSuccess, (comm\<lparr>channels := (channels comm)[r := channel']\<rparr>, w2)))"

text \<open>\<^verbatim>\<open>checkCollNetSetup\<close>.  The gathered buffer starts as the zeroed array with the local
  flag in the own slot; it is a temporary of the function, and its \<^verbatim>\<open>free\<close> is not
  recorded.  The warning printed by rank 0 is left out.\<close>

definition checkCollNetSetup ::
  "collnet_env \<Rightarrow> int \<Rightarrow> int \<Rightarrow> ncclComm \<times> world \<Rightarrow> ncclResult \<times> (ncclComm \<times> world)" where
  "checkCollNetSetup env myrank collNetSetupFail st =
     (case st of (comm, w) \<Rightarrow>
        let nranks = nat (nRanks comm)
        in if ce_calloc env \<noteq> ncclSuccess then (ce_calloc env, st)
           else case ce_allGather env ((replicate nranks 0)[nat myrank := collNetSetupFail]) of
             (res, allGatherFailures) \<Rightarrow>
               if res \<noteq> ncclSuccess then (res, st)
               else if any_failure (take nranks allGatherFailures) collNetSetupFail \<noteq> 0
               then (case run_steps (map (free_collnet_channel env nranks)
                                       [0..<nat (nChannels comm)]) st of
                       (res, st1) \<Rightarrow>
                         if res \<noteq> ncclSuccess then (res, st1)
                         else (case st1 of (comm1, w1) \<Rightarrow>
                                 (ncclSuccess, (comm1\<lparr>collNetSupport := 0\<rparr>, w1))))
               else (ncclSuccess, (comm\<lparr>collNetSupport := 1\<rparr>, w)))"

section \<open>Communicator lifecycle: destroy and abort\<close>

text \<open>The device runtime reports \<^verbatim>\<open>hipSuccess\<close> or an error; \<^verbatim>\<open>CUDACHECK\<close> turns any error
  into \<^verbatim>\<open>ncclUnhandledCudaError\<close>.\<close>

datatype hipError = hipSuccess | hipErrorUnknown

definition CUDACHECK :: "hipError \<Rightarrow> ncclResult" where
  "CUDACHECK e = (if e = hipSuccess then ncclSuccess else ncclUnhandledCudaError)"

text \<open>The results of the calls that leave this file during teardown.  \<^verbatim>\<open>ncclCpuBarrierIn\<close>
  also says whether the caller is the last rank of its process.\<close>

record lifecycle_env =
  le_hipGetDevice :: hipError
  le_hipSetDevice :: "int \<Rightarrow> hipError"
  le_hipStreamSynchronize :: hipError
  le_ncclProxyDestroy :: ncclResult
  le_bootstrapClose :: ncclResult
  le_hipFree :: "addr \<Rightarrow> hipError"
  le_freeChannel :: "nat \<Rightarrow> ncclResult"
  le_hipEventDestroy :: hipError
  le_hipStreamDestroy :: hipError
  le_ncclCpuBarrierIn :: "ncclResult \<times> bool"
  le_ncclCudaHostFree :: "addr \<Rightarrow> ncclResult"

text \<open>\<^verbatim>\<open>comm->rank = comm->cudaDev = comm->busId = comm->nRanks = -1;\<close>\<close>

definition commPoison :: "ncclComm \<Rightarrow> ncclComm" where
  "commPoison comm = comm\<lparr>nRanks := - 1, busId := - 1, cudaDev := - 1, rank := - 1\<rparr>"

text \<open>\<^verbatim>\<open>free(comm->member)\<close> (nothing happens for \<^verbatim>\<open>NULL\<close>), a call that hands a resource
  back and returns a result, and a statement under an \<^verbatim>\<open>if\<close>.\<close>

definition c_free :: "(ncclComm \<Rightarrow> addr) \<Rightarrow> ncclComm \<times> world \<Rightarrow> ncclResult \<times> (ncclComm \<times> world)" where
  "c_free member st =
     (case st of (comm, w) \<Rightarrow>
        (ncclSuccess,
         (comm, if member comm = 0 then w
                else w\<lparr>released := released w @ [HostMem (member comm)]\<rparr>)))"

definition release ::
  "(ncclComm \<Rightarrow> resource) \<Rightarrow> (ncclComm \<Rightarrow> ncclResult) \<Rightarrow> ncclComm \<times> world
     \<Rightarrow> ncclResult \<times> (ncclComm \<times> world)" where
  "release what result st =
     (case st of (comm, w) \<Rightarrow>
        (result comm, (comm, w\<lparr>released := released w @ [what comm]\<rparr>)))"

definition when_step ::
  "('c \<Rightarrow> bool) \<Rightarrow> ('c \<times> world \<Rightarrow> ncclResult \<times> ('c \<times> world))
     \<Rightarrow> 'c \<times> world \<Rightarrow> ncclResult \<times> ('c \<times> world)" where
  "when_step cond step st = (if cond (fst st) then step st else (ncclSuccess, st))"

text \<open>\<^verbatim>\<open>NCCLCHECK(ncclCpuBarrierIn(comm, &isLast)); if (isLast) { free(...) five times }\<close>\<close>

definition barrier_step :: "lifecycle_env \<Rightarrow> ncclComm \<times> world \<Rightarrow> ncclResult \<times> (ncclComm \<times> world)" where
  "barrier_step env st =
     (case le_ncclCpuBarrierIn env of (res, isLast) \<Rightarrow>
        if res \<noteq> ncclSuccess then (res, st)
        else if isLast
        then run_steps [c_free intraBarrier, c_free intraParams, c_free intraCudaDevs,
                        c_free intraCGMode, c_free intraCC] st
        else (ncclSuccess, st))"

text \<open>The statements of \<^verbatim>\<open>commFree\<close> before the poisoning, for a communicator that is not
  \<^verbatim>\<open>NULL\<close> and a build without \<^verbatim>\<open>ENABLE_PROFILING\<close> and \<^verbatim>\<open>ENABLE_COLLTRACE\<close>.  The
  result of \<^verbatim>\<open>ncclTopoFree\<close> is not looked at.\<close>

definition commFree_releases ::
  "lifecycle_env \<Rightarrow> nat \<Rightarrow> (ncclComm \<times> world \<Rightarrow> ncclResult \<times> (ncclComm \<times> world)) list" where
  "commFree_releases env maxchannels =
     [c_free connectSend, c_free connectRecv, c_free p2pSends, c_free p2pRecvs, c_free asyncOps,
      c_free peerInfo,
      release (\<lambda>comm. Topology (topo comm)) (\<lambda>comm. ncclSuccess),
      when_step (\<lambda>comm. bootstrap comm \<noteq> 0)
        (release (\<lambda>comm. BootstrapState (bootstrap comm)) (\<lambda>comm. le_bootstrapClose env)),
      release (\<lambda>comm. DeviceMem (hostDevComm_channels comm))
        (\<lambda>comm. CUDACHECK (le_hipFree env (hostDevComm_channels comm))),
      release (\<lambda>comm. DeviceMem (devComm comm)) (\<lambda>comm. CUDACHECK (le_hipFree env (devComm comm)))]
     @ map (\<lambda>channel. release (\<lambda>comm. ChannelSlot channel) (\<lambda>comm. le_freeChannel env channel))
         [0..<maxchannels]
     @ [when_step (\<lambda>comm. doneEvent comm \<noteq> 0)
          (release (\<lambda>comm. Event (doneEvent comm)) (\<lambda>comm. CUDACHECK (le_hipEventDestroy env))),
        when_step (\<lambda>comm. launchMode comm = GROUP)
          (release (\<lambda>comm. Stream (groupStream comm)) (\<lambda>comm. CUDACHECK (le_hipStreamDestroy env))),
        barrier_step env,
        release (\<lambda>comm. PinnedMem (abortFlag comm)) (\<lambda>comm. le_ncclCudaHostFree env (abortFlag comm)),
        release (\<lambda>comm. PinnedMem (p2pNet comm)) (\<lambda>comm. le_ncclCudaHostFree env (p2pNet comm))]"

text \<open>The memory a handle of type \<^verbatim>\<open>ncclComm_t\<close> points to: a structure with its content,
  or a block that \<^verbatim>\<open>free(comm)\<close> has given back.  C gives no meaning to a read through a
  pointer to a released block, so a function that reads \<^verbatim>\<open>comm->member\<close> through such a
  handle has no result: it ends in the fault \<open>UseAfterFree\<close>.\<close>

datatype comm_block = Allocated ncclComm | Released

datatype fault = UseAfterFree

text \<open>\<^verbatim>\<open>commFree\<close>: the releases, then \<^verbatim>\<open>commPoison(comm); free(comm);\<close>.  An early return
  leaves the structure allocated with the content it has; after \<^verbatim>\<open>free(comm)\<close> the block
  is released and the values \<^verbatim>\<open>commPoison\<close> wrote are gone with it.\<close>

definition commFree ::
  "lifecycle_env \<Rightarrow> ncclComm \<times> world \<Rightarrow> ncclResult \<times> (comm_block \<times> world)" where
  "commFree env st =
     (case run_steps
             (commFree_releases env (length (channels (fst st)))
              @ [\<lambda>st. (ncclSuccess, (commPoison (fst st), snd st))]) st of
        (res, (comm, w)) \<Rightarrow>
          if res \<noteq> ncclSuccess then (res, (Allocated comm, w))
          else (ncclSuccess, (Released, w\<lparr>released := released w @ [CommStruct]\<rparr>)))"

text \<open>\<^verbatim>\<open>CUDACHECK(hipSetDevice(dev))\<close>.\<close>

definition hipSetDevice_step ::
  "lifecycle_env \<Rightarrow> int \<Rightarrow> 'c \<times> world \<Rightarrow> ncclResult \<times> ('c \<times> world)" where
  "hipSetDevice_step env dev st =
     (case st of (comm, w) \<Rightarrow>
        if le_hipSetDevice env dev = hipSuccess then (ncclSuccess, (comm, w\<lparr>device := dev\<rparr>))
        else (ncclUnhandledCudaError, st))"

text \<open>\<^verbatim>\<open>commDestroy\<close>.  The statements before \<^verbatim>\<open>commFree\<close> work on the structure; the
  \<^verbatim>\<open>hipSetDevice(savedDevice)\<close> after it uses the two local variables only.\<close>

definition commDestroy ::
  "lifecycle_env \<Rightarrow> ncclComm \<times> world \<Rightarrow> ncclResult \<times> (comm_block \<times> world)" where
  "commDestroy env st =
     (if CUDACHECK (le_hipGetDevice env) \<noteq> ncclSuccess
      then (CUDACHECK (le_hipGetDevice env), (Allocated (fst st), snd st))
      else
        let savedDevice = device (snd st);
            commDevice = cudaDev (fst st)
        in (case run_steps
                   [when_step (\<lambda>comm. savedDevice \<noteq> commDevice) (hipSetDevice_step env commDevice),
                    (\<lambda>st. (CUDACHECK (le_hipStreamSynchronize env), st)),
                    release (\<lambda>comm. ProxyState) (\<lambda>comm. le_ncclProxyDestroy env)]
                   st of
              (res, (comm, w)) \<Rightarrow>
                if res \<noteq> ncclSuccess then (res, (Allocated comm, w))
                else
                  (case commFree env (comm, w) of
                     (res, st') \<Rightarrow>
                       if res \<noteq> ncclSuccess then (res, st')
                       else when_step (\<lambda>block. savedDevice \<noteq> commDevice)
                              (hipSetDevice_step env savedDevice) st')))"

text \<open>\<^verbatim>\<open>ncclCommDestroy\<close> and \<^verbatim>\<open>ncclCommAbort\<close>.  A handle is \<^verbatim>\<open>NULL\<close> (\<open>None\<close>) or
  points to a block; each function returns its result, the handle with the block as the
  call leaves it, and the process state.  Both read a member of the structure right after
  the \<^verbatim>\<open>NULL\<close> test (in a build without \<^verbatim>\<open>ENABLE_TRACE\<close>: \<^verbatim>\<open>comm->rank\<close> in the test of
  the identity members, \<^verbatim>\<open>comm->abortFlag\<close> in the store).  \<^verbatim>\<open>delete comm->cliqueManager\<close>
  leaves the pointer member as it is.  \<^verbatim>\<open>STORE(comm->abortFlag, 1)\<close> writes the word at the
  address \<^verbatim>\<open>comm->abortFlag\<close>.\<close>

definition ncclCommDestroy ::
  "lifecycle_env \<Rightarrow> comm_block option \<Rightarrow> world
     \<Rightarrow> fault + ncclResult \<times> comm_block option \<times> world" where
  "ncclCommDestroy env comm w =
     (case comm of
        None \<Rightarrow> Inr (ncclSuccess, None, w)
      | Some Released \<Rightarrow> Inl UseAfterFree
      | Some (Allocated c) \<Rightarrow>
          if rank c = - 1 \<or> nRanks c \<le> 0 \<or> cudaDev c = - 1 \<or> busId c = - 1
          then Inr (ncclInvalidArgument, Some (Allocated c), w)
          else
            (case commDestroy env
                    (c, if cliqueManager c \<noteq> 0
                        then w\<lparr>released := released w @ [Clique (cliqueManager c)]\<rparr> else w) of
               (res, (block, w')) \<Rightarrow> Inr (res, Some block, w')))"

definition ncclCommAbort ::
  "comm_block option \<Rightarrow> world \<Rightarrow> fault + ncclResult \<times> comm_block option \<times> world" where
  "ncclCommAbort comm w =
     (case comm of
        None \<Rightarrow> Inr (ncclSuccess, None, w)
      | Some Released \<Rightarrow> Inl UseAfterFree
      | Some (Allocated c) \<Rightarrow>
          Inr (ncclSuccess, Some (Allocated c), w\<lparr>pinned := (pinned w)(abortFlag c := 1)\<rparr>))"

section \<open>Connecting the transports under a pinned CPU affinity\<close>

text \<open>The part of \<^verbatim>\<open>initTransportsRank\<close> from \<^verbatim>\<open>sched_getaffinity\<close> to its end.  These are
  the calls whose result is checked there: the channel index tells the iterations of a
  loop apart, the two tree connections of a channel are told apart by their direction.\<close>

datatype init_call =
    TopoSetAffinity
  | ComputeBuffSizes
  | SetupChannel nat
  | RingP2pConnect nat
  | RingP2pSetup
  | TreeP2pConnectDown nat
  | TreeP2pConnectUp nat
  | TreeP2pSetup
  | CollNetP2pConnectRecv nat
  | CollNetP2pConnectSend nat
  | CollNetP2pSetup
  | CheckCollNetSetup
  | TopoTuneModel
  | TopoComputeP2pChannels
  | CommSetIntra
  | ProxyCreate

text \<open>A CPU set, as \<^verbatim>\<open>cpu_set_t\<close>.\<close>

type_synonym cpu_set = "nat set"

text \<open>The answers from outside: the result of each call, the CPUs near the device that
  \<^verbatim>\<open>ncclTopoSetAffinity\<close> pins the thread to when it succeeds, and the part of the
  collective-network test that does not depend on the communicator
  (\<^verbatim>\<open>ncclParamCollNetEnable() == 1 && collNetSupport() && collNetGraph.nChannels\<close>).\<close>

record connect_env =
  call_result :: "init_call \<Rightarrow> ncclResult"
  near_cpus :: cpu_set
  collNet_usable :: bool

text \<open>The result of the first call of a sequence that does not succeed.\<close>

fun first_failure :: "(init_call \<Rightarrow> ncclResult) \<Rightarrow> init_call list \<Rightarrow> ncclResult" where
  "first_failure result [] = ncclSuccess"
| "first_failure result (c # cs) =
     (if result c \<noteq> ncclSuccess then result c else first_failure result cs)"

text \<open>The calls under \<^verbatim>\<open>NCCLCHECKGOTO(..., ret, affinity_restore)\<close>, in program order:
  the ring loop (with its \<^verbatim>\<open>continue\<close> for a single rank), the ring setup, the tree loop
  and the tree setup.\<close>

definition ring_tree_calls :: "ncclComm \<Rightarrow> init_call list" where
  "ring_tree_calls comm =
     concat (map (\<lambda>c. SetupChannel c # (if nRanks comm = 1 then [] else [RingP2pConnect c]))
               [0..<nat (nChannels comm)])
     @ [RingP2pSetup]
     @ concat (map (\<lambda>c. if nRanks comm = 1 then [] else [TreeP2pConnectDown c, TreeP2pConnectUp c])
                 [0..<nat (nChannels comm)])
     @ [TreeP2pSetup]"

text \<open>The calls under a plain \<^verbatim>\<open>NCCLCHECK\<close> that follow: the collective-network block
  (the two \<^verbatim>\<open>collNetSetup\<close> calls in it return no result code) and the last four.\<close>

definition collNet_calls :: "connect_env \<Rightarrow> ncclComm \<Rightarrow> init_call list" where
  "collNet_calls env comm =
     (if 1 < nNodes comm \<and> collNet_usable env
      then concat (map (\<lambda>c. [CollNetP2pConnectRecv c, CollNetP2pConnectSend c])
                     [0..<nat (nChannels comm div 2)])
           @ [CollNetP2pSetup, CheckCollNetSetup]
      else [])"

definition final_calls :: "ncclComm \<Rightarrow> init_call list" where
  "final_calls comm =
     [TopoTuneModel, TopoComputeP2pChannels, CommSetIntra]
     @ (if nNodes comm \<noteq> 0 then [ProxyCreate] else [])"

text \<open>The function returns its result and the affinity of the calling thread at that
  moment.  \<^verbatim>\<open>NCCLCHECK\<close> returns on the spot; \<^verbatim>\<open>NCCLCHECKGOTO\<close> jumps to
  \<^verbatim>\<open>affinity_restore\<close>, where \<^verbatim>\<open>sched_setaffinity\<close> puts the saved set back.  A failed
  \<^verbatim>\<open>ncclTopoSetAffinity\<close> is taken not to have changed the affinity.\<close>

definition initTransportsRank_connect ::
  "connect_env \<Rightarrow> ncclComm \<Rightarrow> cpu_set \<Rightarrow> ncclResult \<times> cpu_set" where
  "initTransportsRank_connect env comm affinity =
     (let affinitySave = affinity
      in if call_result env TopoSetAffinity \<noteq> ncclSuccess
         then (call_result env TopoSetAffinity, affinity)
         else if call_result env ComputeBuffSizes \<noteq> ncclSuccess
         then (call_result env ComputeBuffSizes, near_cpus env)
         else
           let ret = first_failure (call_result env) (ring_tree_calls comm)
           in if ret \<noteq> ncclSuccess then (ret, affinitySave)
              else
                let res = first_failure (call_result env) (collNet_calls env comm @ final_calls comm)
                in if res \<noteq> ncclSuccess then (res, near_cpus env)
                   else (ncclSuccess, affinitySave))"

section \<open>Predicates used to state the properties\<close>

text \<open>\<open>v\<close> is a minimum of the values \<open>xs\<close> for the comparison of \<^verbatim>\<open>float\<close>: it is one of
  them and none is below it.\<close>

definition float_minimum :: "cfloat \<Rightarrow> cfloat list \<Rightarrow> bool" where
  "float_minimum v xs \<longleftrightarrow> v \<in> set xs \<and> (\<forall>x\<in>set xs. \<not> float_less x v)"

text \<open>None of the six speeds a rank published is not-a-number.\<close>

definition no_nan_speeds :: "allGather3Data \<Rightarrow> bool" where
  "no_nan_speeds d \<longleftrightarrow>
     speedIntra (ag3_tree d) \<noteq> FNaN \<and> speedInter (ag3_tree d) \<noteq> FNaN \<and>
     speedIntra (ag3_ring d) \<noteq> FNaN \<and> speedInter (ag3_ring d) \<noteq> FNaN \<and>
     speedIntra (ag3_collNet d) \<noteq> FNaN \<and> speedInter (ag3_collNet d) \<noteq> FNaN"

text \<open>The value \<^verbatim>\<open>firstRank = allGather3Data[i].topoRanks.ringRecv[0]\<close> of a record.\<close>

definition first_ring_rank :: "allGather3Data \<Rightarrow> int" where
  "first_ring_rank d = ringRecv (ag3_topoRanks d) ! 0"

text \<open>The distinct elements of a list, in the order in which they first occur.\<close>

definition first_seen :: "'a list \<Rightarrow> 'a list" where
  "first_seen xs = rev (remdups (rev xs))"

text \<open>What holds after the first \<open>k\<close> iterations of the node-grouping loop on a communicator
  of rank \<open>r\<close>: the nodes found so far are the distinct first-ring ranks of records \<open>0..k-1\<close>
  in order of first occurrence, each with the tree pattern of the lowest rank that reported
  it, and once the loop has passed the own rank, \<^verbatim>\<open>comm->node\<close> is the index of the own
  first-ring rank.\<close>

definition node_inv :: "allGather3Data list \<Rightarrow> int \<Rightarrow> nat \<Rightarrow> ncclComm \<times> ag3_locals \<Rightarrow> bool" where
  "node_inv ag r k st \<longleftrightarrow>
     (case st of (c, l) \<Rightarrow>
        rank c = r \<and> nNodes c = int (length (first_seen (map first_ring_rank (take k ag))))
        \<and> length (nodesFirstRank l) = length ag \<and> length (nodesTreePatterns l) = length ag
        \<and> take (length (first_seen (map first_ring_rank (take k ag)))) (nodesFirstRank l)
             = first_seen (map first_ring_rank (take k ag))
        \<and> (\<forall>m < length (first_seen (map first_ring_rank (take k ag))).
              \<exists>i<k. first_ring_rank (ag ! i) = nodesFirstRank l ! m
                   \<and> (\<forall>j<i. first_ring_rank (ag ! j) \<noteq> nodesFirstRank l ! m)
                   \<and> nodesTreePatterns l ! m = pattern (ag3_tree (ag ! i)))
        \<and> (0 \<le> r \<and> nat r < k \<longrightarrow>
              0 \<le> node c \<and> nat (node c) < length (first_seen (map first_ring_rank (take k ag)))
              \<and> nodesFirstRank l ! nat (node c) = first_ring_rank (ag ! nat r)))"

text \<open>Two gathered records report the same host-identity hash and PCI bus id.\<close>

definition same_device :: "allGather1Data \<Rightarrow> allGather1Data \<Rightarrow> bool" where
  "same_device a b \<longleftrightarrow>
     hostHash (ag1_peerInfo a) = hostHash (ag1_peerInfo b)
     \<and> pi_busId (ag1_peerInfo a) = pi_busId (ag1_peerInfo b)"

text \<open>A channel whose collective-network peer slot has both resource pointers cleared.\<close>

definition null_collnet_peer :: "nat \<Rightarrow> ncclChannel \<Rightarrow> ncclChannel" where
  "null_collnet_peer nranks channel =
     channel\<lparr>peers := (peers channel)[nranks :=
        (peers channel ! nranks)\<lparr>send := (send (peers channel ! nranks))\<lparr>transportResources := 0\<rparr>,
                                  recv := (recv (peers channel ! nranks))\<lparr>transportResources := 0\<rparr>\<rparr>]\<rparr>"

text \<open>The resource of a connector that had both a resource and a \<^verbatim>\<open>transportComm\<close> has been
  handed to that \<^verbatim>\<open>transportComm\<close>'s \<^verbatim>\<open>free\<close>.\<close>

definition connector_released :: "ncclConnector \<Rightarrow> world \<Rightarrow> bool" where
  "connector_released conn w \<longleftrightarrow>
     (transportResources conn \<noteq> 0 \<and> transportComm conn \<noteq> 0 \<longrightarrow>
        TransportRes (transportComm conn) (transportResources conn) \<in> set (released w))"

text \<open>What holds after the release loop has handled channels \<open>0..k-1\<close> of \<open>comm0\<close>.\<close>

definition collnet_freed_upto :: "nat \<Rightarrow> ncclComm \<Rightarrow> nat \<Rightarrow> ncclComm \<times> world \<Rightarrow> bool" where
  "collnet_freed_upto nranks comm0 k st \<longleftrightarrow>
     (case st of (comm, w) \<Rightarrow>
        length (channels comm) = length (channels comm0)
        \<and> (\<forall>r<length (channels comm0). k \<le> r \<longrightarrow> channels comm ! r = channels comm0 ! r)
        \<and> (\<forall>r<k. transportResources (send (peers (channels comm ! r) ! nranks)) = 0
                 \<and> transportResources (recv (peers (channels comm ! r) ! nranks)) = 0
                 \<and> connector_released (send (peers (channels comm0 ! r) ! nranks)) w
                 \<and> connector_released (recv (peers (channels comm0 ! r) ! nranks)) w))"

text \<open>The identity members pass the test at the head of \<^verbatim>\<open>ncclCommDestroy\<close>.\<close>

definition valid_comm :: "ncclComm \<Rightarrow> bool" where
  "valid_comm c \<longleftrightarrow> rank c \<noteq> - 1 \<and> 0 < nRanks c \<and> cudaDev c \<noteq> - 1 \<and> busId c \<noteq> - 1"

text \<open>Every call of the teardown that leaves this file succeeds.\<close>

definition lifecycle_calls_succeed :: "lifecycle_env \<Rightarrow> bool" where
  "lifecycle_calls_succeed env \<longleftrightarrow>
     le_hipGetDevice env = hipSuccess \<and> (\<forall>d. le_hipSetDevice env d = hipSuccess)
     \<and> le_hipStreamSynchronize env = hipSuccess \<and> le_ncclProxyDestroy env = ncclSuccess
     \<and> le_bootstrapClose env = ncclSuccess \<and> (\<forall>p. le_hipFree env p = hipSuccess)
     \<and> (\<forall>c. le_freeChannel env c = ncclSuccess) \<and> le_hipEventDestroy env = hipSuccess
     \<and> le_hipStreamDestroy env = hipSuccess \<and> fst (le_ncclCpuBarrierIn env) = ncclSuccess
     \<and> (\<forall>p. le_ncclCudaHostFree env p = ncclSuccess)"

section \<open>Concrete inputs on which the properties are exercised\<close>

text \<open>A communicator and a channel as \<^verbatim>\<open>ncclCalloc\<close> leaves them (all members zero,
  \<^verbatim>\<open>GROUP\<close> being the first enumerator), graphs, gathered records, a stand-in for
  \<^verbatim>\<open>initChannel\<close> that allocates four ring entries, peer records of three ranks of which
  two sit on one device, and answers of the external calls: a gather in which rank 1
  reports a failure, a teardown in which every call succeeds, one in which the device
  runtime reports an error for \<^verbatim>\<open>hipStreamSynchronize\<close>, and a connection phase in which
  one chosen call fails.\<close>

definition calloc_channel :: ncclChannel where
  "calloc_channel = \<lparr>chan_id = 0, userRanks = [], peers = []\<rparr>"

definition calloc_comm :: "nat \<Rightarrow> ncclComm" where
  "calloc_comm maxchannels =
     \<lparr>channels = replicate maxchannels calloc_channel,
      peerInfo = 0, topo = 0, bootstrap = 0, connectSend = 0, connectRecv = 0,
      p2pSends = 0, p2pRecvs = 0, asyncOps = 0, rank = 0, nRanks = 0, cudaDev = 0, busId = 0,
      nNodes = 0, node = 0, nChannels = 0, doneEvent = 0, launchMode = GROUP, groupStream = 0,
      abortFlag = 0, p2pNet = 0, hostDevComm_channels = 0, devComm = 0, intraBarrier = 0,
      intraParams = 0, intraCudaDevs = 0, intraCGMode = 0, intraCC = 0, collNetSupport = 0,
      cliqueManager = 0\<rparr>"

definition ex_graph :: "int \<Rightarrow> int \<Rightarrow> int \<Rightarrow> rat \<Rightarrow> rat \<Rightarrow> int \<Rightarrow> int \<Rightarrow> ncclTopoGraph" where
  "ex_graph p n sc si se ti te =
     \<lparr>tg_pattern = p, tg_nChannels = n, tg_sameChannels = sc, tg_speedIntra = FFin si,
      tg_speedInter = FFin se, tg_typeIntra = ti, tg_typeInter = te\<rparr>"

definition ex_locals :: "ncclTopoGraph \<Rightarrow> ncclTopoGraph \<Rightarrow> ncclTopoGraph \<Rightarrow> ag3_locals" where
  "ex_locals t r c =
     \<lparr>treeGraph = t, ringGraph = r, collNetGraph = c, gcn = 0, nodesFirstRank = [],
      nodesTreePatterns = [], nChannelsOrig = 0\<rparr>"

definition ex_record :: "int \<Rightarrow> int \<Rightarrow> ncclTopoGraph \<Rightarrow> ncclTopoGraph \<Rightarrow> ncclTopoGraph \<Rightarrow> allGather3Data" where
  "ex_record n first t r c =
     \<lparr>ag3_cudaCompCap = 0, ag3_fullCudaCompCap = 0, ag3_nChannels = n, ag3_gcn = 0,
      ag3_tree = graphInfo_of t, ag3_ring = graphInfo_of r, ag3_collNet = graphInfo_of c,
      ag3_topoRanks = \<lparr>ringRecv = [first]\<rparr>\<rparr>"

definition ex_initChannel :: "ncclComm \<Rightarrow> nat \<Rightarrow> ncclResult \<times> ncclComm" where
  "ex_initChannel comm c =
     (ncclSuccess,
      comm\<lparr>channels := (channels comm)[c := \<lparr>chan_id = int c, userRanks = [0, 0, 0, 0], peers = []\<rparr>]\<rparr>)"

definition ex_st :: "ncclComm \<times> ag3_locals" where
  "ex_st = ((calloc_comm 8)\<lparr>rank := 1, nRanks := 2\<rparr>,
            ex_locals (ex_graph 1 4 1 20 12 3 4) (ex_graph 0 3 1 24 12 3 4) (ex_graph 1 3 0 10 10 2 2))"

definition ex_ag :: "allGather3Data list" where
  "ex_ag = [ex_record 2 0 (ex_graph 1 2 0 22 10 2 5) (ex_graph 0 2 1 18 12 3 3) (ex_graph 1 2 0 10 8 2 2),
            fst (allGather3_fill 0 0 \<lparr>ringRecv = [0]\<rparr> ex_st)]"

definition ex_ag4 :: "allGather3Data list" where
  "ex_ag4 = [ex_record 2 0 (ex_graph 1 2 0 22 10 2 5) (ex_graph 0 2 1 18 12 3 3) (ex_graph 1 2 0 10 8 2 2),
             ex_record 2 0 (ex_graph 1 2 0 22 10 2 5) (ex_graph 0 2 1 18 12 3 3) (ex_graph 1 2 0 10 8 2 2),
             ex_record 2 2 (ex_graph 4 2 0 22 10 2 5) (ex_graph 0 2 1 18 12 3 3) (ex_graph 1 2 0 10 8 2 2),
             ex_record 2 2 (ex_graph 4 2 0 22 10 2 5) (ex_graph 0 2 1 18 12 3 3) (ex_graph 1 2 0 10 8 2 2)]"

definition ex_peer :: "64 word \<Rightarrow> int \<Rightarrow> int \<Rightarrow> allGather1Data" where
  "ex_peer host bus r =
     \<lparr>ag1_peerInfo = \<lparr>pi_rank = r, pi_cudaDev = 0, hostHash = host, pidHash = 7, shmDev = 0,
                      pi_busId = bus, gdrSupport = 0\<rparr>,
      ag1_comm = 1, ag1_cudaCompCap = 0\<rparr>"

definition ex_ag1 :: "allGather1Data list" where
  "ex_ag1 = [ex_peer 5 4096 0, ex_peer 5 4096 1, ex_peer 5 8192 2]"

definition ex_world :: world where
  "ex_world = \<lparr>released = [], device = 0, pinned = (\<lambda>a. 0)\<rparr>"

definition ex_collnet_env :: collnet_env where
  "ex_collnet_env =
     \<lparr>ce_calloc = ncclSuccess,
      ce_allGather = (\<lambda>buf. (ncclSuccess, buf[1 := 1])),
      ce_free = (\<lambda>tc res. ncclSuccess)\<rparr>"

definition ex_peers3 :: "ncclPeer list" where
  "ex_peers3 =
     [\<lparr>send = \<lparr>transportComm = 0, transportResources = 0\<rparr>,
       recv = \<lparr>transportComm = 0, transportResources = 0\<rparr>\<rparr>,
      \<lparr>send = \<lparr>transportComm = 3, transportResources = 50\<rparr>,
       recv = \<lparr>transportComm = 4, transportResources = 60\<rparr>\<rparr>,
      \<lparr>send = \<lparr>transportComm = 7, transportResources = 100\<rparr>,
       recv = \<lparr>transportComm = 8, transportResources = 200\<rparr>\<rparr>]"

definition ex_collnet_comm :: ncclComm where
  "ex_collnet_comm =
     (calloc_comm 2)\<lparr>nRanks := 2, nChannels := 1,
        channels := [\<lparr>chan_id = 0, userRanks = [0, 1], peers = ex_peers3\<rparr>, calloc_channel]\<rparr>"

definition ex_lifecycle_env :: lifecycle_env where
  "ex_lifecycle_env =
     \<lparr>le_hipGetDevice = hipSuccess, le_hipSetDevice = (\<lambda>d. hipSuccess),
      le_hipStreamSynchronize = hipSuccess, le_ncclProxyDestroy = ncclSuccess,
      le_bootstrapClose = ncclSuccess, le_hipFree = (\<lambda>p. hipSuccess),
      le_freeChannel = (\<lambda>c. ncclSuccess), le_hipEventDestroy = hipSuccess,
      le_hipStreamDestroy = hipSuccess, le_ncclCpuBarrierIn = (ncclSuccess, True),
      le_ncclCudaHostFree = (\<lambda>p. ncclSuccess)\<rparr>"

definition ex_live_comm :: ncclComm where
  "ex_live_comm =
     (calloc_comm 2)\<lparr>rank := 1, nRanks := 2, cudaDev := 1, busId := 4096, bootstrap := 11,
        connectSend := 12, connectRecv := 13, abortFlag := 14, p2pNet := 15, doneEvent := 16,
        launchMode := PARALLEL, intraBarrier := 17, cliqueManager := 18\<rparr>"

definition ex_sync_fails_env :: lifecycle_env where
  "ex_sync_fails_env = ex_lifecycle_env\<lparr>le_hipStreamSynchronize := hipErrorUnknown\<rparr>"

definition ex_connect_env :: "init_call \<Rightarrow> connect_env" where
  "ex_connect_env failing =
     \<lparr>call_result = (\<lambda>c. if c = failing then ncclSystemError else ncclSuccess),
      near_cpus = {2}, collNet_usable = False\<rparr>"

definition ex_channels8 :: "ncclChannel list" where
  "ex_channels8 = map (\<lambda>i. \<lparr>chan_id = i, userRanks = [], peers = []\<rparr>) [0, 1, 2, 3, 4, 5, 6, 7]"

definition ex_st_channels :: "ncclComm \<times> ag3_locals" where
  "ex_st_channels = ((calloc_comm 8)\<lparr>channels := ex_channels8, rank := 1, nRanks := 2, nChannels := 3\<rparr>,
                     snd (snd (allGather3_fill 0 0 \<lparr>ringRecv = [0]\<rparr> ex_st)))"

chapter \<open>Properties\<close>

section \<open>setupChannel rotates the ring\<close>

lemma shift_loop_finds:
  "k \<le> s \<Longrightarrow> s < nranks \<Longrightarrow> ringRanks ! s = r \<Longrightarrow>
   (\<forall>j. k \<le> j \<and> j < s \<longrightarrow> ringRanks ! j \<noteq> r) \<Longrightarrow>
   shift_loop ringRanks r nranks k = s"
proof (induction ringRanks r nranks k rule: shift_loop.induct)
  case (1 ringRanks r nranks k)
  show ?case
  proof (cases "k = s")
    case True
    with "1.prems" show ?thesis by (simp add: shift_loop.simps)
  next
    case False
    with "1.prems" have lt: "k < s" and ne: "ringRanks ! k \<noteq> r" by auto
    from lt "1.prems" have kn: "k < nranks" by simp
    have "shift_loop ringRanks r nranks (Suc k) = s"
      using "1.IH" [OF kn ne] lt "1.prems" by auto
    with kn ne show ?thesis by (subst shift_loop.simps) simp
  qed
qed

lemma rotate_fold_nth:
  "k \<le> length ur \<Longrightarrow>
   length (fold (\<lambda>i ur. ur[i := f i]) [0..<k] ur) = length ur \<and>
   (\<forall>i < length ur. fold (\<lambda>i ur. ur[i := f i]) [0..<k] ur ! i = (if i < k then f i else ur ! i))"
proof (induction k)
  case 0
  then show ?case by simp
next
  case (Suc k)
  then show ?case by (auto simp: nth_list_update)
qed

lemma rotate_loop_nth:
  "nranks \<le> length ur \<Longrightarrow> i < nranks \<Longrightarrow>
   rotate_loop ringRanks nranks shift ur ! i = ringRanks ! ((i + shift) mod nranks)"
  using rotate_fold_nth [of nranks ur "\<lambda>i. ringRanks ! ((i + shift) mod nranks)"]
  by (simp add: rotate_loop_def)

text \<open>Claim C6.  When \<^verbatim>\<open>initChannel\<close> succeeds, \<open>ringRanks\<close> is a permutation of
  \<open>0..nranks-1\<close> and the local rank stands at position \<open>s\<close> in it, \<open>setupChannel\<close> succeeds
  and leaves \<open>userRanks[i] = ringRanks[(i+s) mod nranks]\<close> for every \<open>i < nranks\<close>; in
  particular \<open>userRanks[0]\<close> is the local rank.  The example that follows is the ring
  \<open>[0,1,2,3]\<close> seen from rank 2, whose rotation is \<open>[2,3,0,1]\<close>.\<close>

theorem setupChannel_rotation:
  assumes perm: "length ringRanks = nranks" "set ringRanks = {0..<int nranks}"
    and pos: "s < nranks" "ringRanks ! s = r"
    and init: "initChannel comm channelId = (ncclSuccess, comm1)"
    and alloc: "channelId < length (channels comm1)"
      "nranks \<le> length (userRanks (channels comm1 ! channelId))"
  shows "\<exists>comm'. setupChannel initChannel comm channelId r nranks ringRanks = (ncclSuccess, comm')
      \<and> (\<forall>i<nranks. userRanks (channels comm' ! channelId) ! i = ringRanks ! ((i + s) mod nranks))
      \<and> userRanks (channels comm' ! channelId) ! 0 = r"
proof -
  have card: "card (set ringRanks) = length ringRanks" using perm by simp
  then have dist: "distinct ringRanks" by (rule card_distinct)
  have "\<forall>j. 0 \<le> j \<and> j < s \<longrightarrow> ringRanks ! j \<noteq> r"
  proof (intro allI impI)
    fix j assume "0 \<le> j \<and> j < s"
    then have "j < length ringRanks" "s < length ringRanks" "j \<noteq> s" using pos perm by auto
    then have "ringRanks ! j \<noteq> ringRanks ! s" using dist by (simp add: nth_eq_iff_index_eq)
    then show "ringRanks ! j \<noteq> r" using pos by simp
  qed
  then have sh: "shift_loop ringRanks r nranks 0 = s"
    using shift_loop_finds [of 0 s nranks ringRanks r] pos by simp
  let ?ch = "channels comm1 ! channelId"
  let ?ur = "rotate_loop ringRanks nranks s (userRanks ?ch)"
  let ?comm' = "comm1\<lparr>channels := (channels comm1)[channelId := ?ch\<lparr>userRanks := ?ur\<rparr>]\<rparr>"
  have res: "setupChannel initChannel comm channelId r nranks ringRanks = (ncclSuccess, ?comm')"
    by (simp add: setupChannel_def init sh Let_def)
  have ur: "userRanks (channels ?comm' ! channelId) = ?ur" using alloc by simp
  have nth: "\<forall>i<nranks. ?ur ! i = ringRanks ! ((i + s) mod nranks)"
    using rotate_loop_nth [OF alloc(2)] by simp
  have "?ur ! 0 = ringRanks ! (s mod nranks)" using nth pos by force
  then have zero: "?ur ! 0 = r" using pos by simp
  show ?thesis using res ur nth zero by simp
qed

theorem setupChannel_rotation_witness:
  "\<exists>comm'. setupChannel ex_initChannel (calloc_comm 2) 0 2 4 [0, 1, 2, 3] = (ncclSuccess, comm')
     \<and> userRanks (channels comm' ! 0) ! 0 = 2 \<and> userRanks (channels comm' ! 0) ! 1 = 3
     \<and> userRanks (channels comm' ! 0) ! 2 = 0 \<and> userRanks (channels comm' ! 0) ! 3 = 1"
proof -
  let ?c1 = "snd (ex_initChannel (calloc_comm 2) 0)"
  have s: "set [0, 1, 2, 3 :: int] = {0..<int 4}" by auto
  have i: "ex_initChannel (calloc_comm 2) 0 = (ncclSuccess, ?c1)" by (simp add: ex_initChannel_def)
  have a: "0 < length (channels ?c1)" "4 \<le> length (userRanks (channels ?c1 ! 0))"
    by (simp_all add: ex_initChannel_def calloc_comm_def)
  from setupChannel_rotation [of "[0, 1, 2, 3]" 4 2 2 ex_initChannel "calloc_comm 2" 0 ?c1, OF _ s _ _ i a]
  obtain comm' where r: "setupChannel ex_initChannel (calloc_comm 2) 0 2 4 [0, 1, 2, 3] = (ncclSuccess, comm')"
    and n: "\<forall>i<4. userRanks (channels comm' ! 0) ! i = [0, 1, 2, 3] ! ((i + 2) mod 4)"
    by auto
  from n [rule_format, of 0] n [rule_format, of 1] n [rule_format, of 2] n [rule_format, of 3] r
  show ?thesis by simp
qed

section \<open>Moving the duplicated channels\<close>

lemma memcpy_fold_nth:
  "c1 < c0 \<Longrightarrow> c0 + k \<le> length chs \<Longrightarrow>
   length (fold (\<lambda>i chs. chs[c1 + i := chs ! (c0 + i)]) [0..<k] chs) = length chs \<and>
   (\<forall>j<length chs. fold (\<lambda>i chs. chs[c1 + i := chs ! (c0 + i)]) [0..<k] chs ! j =
      (if c1 \<le> j \<and> j < c1 + k then chs ! (c0 + (j - c1)) else chs ! j))"
proof (induction k)
  case 0
  then show ?case by auto
next
  case (Suc k)
  let ?R = "fold (\<lambda>i chs. chs[c1 + i := chs ! (c0 + i)]) [0..<k] chs"
  from Suc have len: "length ?R = length chs"
    and nth: "\<forall>j<length chs. ?R ! j = (if c1 \<le> j \<and> j < c1 + k then chs ! (c0 + (j - c1)) else chs ! j)"
    by auto
  have src: "?R ! (c0 + k) = chs ! (c0 + k)" using nth Suc.prems by auto
  have step: "fold (\<lambda>i chs. chs[c1 + i := chs ! (c0 + i)]) [0..<Suc k] chs = ?R[c1 + k := chs ! (c0 + k)]"
    using src by simp
  show ?case
  proof (intro conjI allI impI)
    show "length (fold (\<lambda>i chs. chs[c1 + i := chs ! (c0 + i)]) [0..<Suc k] chs) = length chs"
      using step len by simp
  next
    fix j assume j: "j < length chs"
    show "fold (\<lambda>i chs. chs[c1 + i := chs ! (c0 + i)]) [0..<Suc k] chs ! j =
      (if c1 \<le> j \<and> j < c1 + Suc k then chs ! (c0 + (j - c1)) else chs ! j)"
    proof (cases "j = c1 + k")
      case True
      then show ?thesis using step len j by simp
    next
      case False
      then show ?thesis using step len j nth by (auto simp: nth_list_update)
    qed
  qed
qed

lemma compact_channels_eq:
  assumes "0 \<le> nChannels comm" "nChannels comm < nChannelsOrig l"
  shows "compact_channels (comm, l) =
     (comm\<lparr>channels := fold (\<lambda>i chs. chs[nat (nChannels comm) + i := chs ! (nat (nChannelsOrig l) + i)])
         [0..<nat (nChannels comm)] (channels comm)\<rparr>, l)"
proof -
  have "(\<lambda>i chs. chs[nat (nChannels comm + int i) := chs ! nat (nChannelsOrig l + int i)]) =
        (\<lambda>i (chs::ncclChannel list). chs[nat (nChannels comm) + i := chs ! (nat (nChannelsOrig l) + i)])"
    using assms by (intro ext) (simp add: nat_add_distrib)
  then show ?thesis using assms by (simp add: compact_channels_def)
qed

lemma compact_channels_copy:
  assumes "0 \<le> nChannels comm" and "nChannels comm < nChannelsOrig l"
    and "nat (nChannelsOrig l) + nat (nChannels comm) \<le> length (channels comm)"
    and "compact_channels (comm, l) = (comm', l')"
  shows "nChannels comm' = nChannels comm \<and> length (channels comm') = length (channels comm)
    \<and> (\<forall>j < nat (nChannels comm). channels comm' ! j = channels comm ! j)
    \<and> (\<forall>i < nat (nChannels comm).
          channels comm' ! (nat (nChannels comm) + i) = channels comm ! (nat (nChannelsOrig l) + i))
    \<and> (\<forall>j. 2 * nat (nChannels comm) \<le> j \<and> j < length (channels comm)
          \<longrightarrow> channels comm' ! j = channels comm ! j)"
proof -
  let ?c1 = "nat (nChannels comm)" and ?c0 = "nat (nChannelsOrig l)"
  let ?R = "fold (\<lambda>i chs. chs[?c1 + i := chs ! (?c0 + i)]) [0..<?c1] (channels comm)"
  have lt: "?c1 < ?c0" using assms(1,2) by simp
  from compact_channels_eq [OF assms(1,2)] assms(4)
  have c': "comm' = comm\<lparr>channels := ?R\<rparr>" by simp
  from memcpy_fold_nth [OF lt assms(3)]
  have len: "length ?R = length (channels comm)"
    and nth: "\<forall>j<length (channels comm). ?R ! j =
      (if ?c1 \<le> j \<and> j < ?c1 + ?c1 then channels comm ! (?c0 + (j - ?c1)) else channels comm ! j)"
    by auto
  have a: "\<forall>j < ?c1. ?R ! j = channels comm ! j" using nth lt assms(3) by auto
  have b: "\<forall>i < ?c1. ?R ! (?c1 + i) = channels comm ! (?c0 + i)" using nth lt assms(3) by auto
  have c: "\<forall>j. 2 * ?c1 \<le> j \<and> j < length (channels comm) \<longrightarrow> ?R ! j = channels comm ! j"
    using nth by auto
  show ?thesis using c' len a b c by simp
qed

lemma reconcile_step_keeps_channels:
  "channels (fst (reconcile_step d st)) = channels (fst st)
   \<and> nChannelsOrig (snd (reconcile_step d st)) = nChannelsOrig (snd st)"
  by (cases st) (simp add: reconcile_step_def Let_def)

lemma reconcile_fold_keeps_channels:
  "channels (fst (fold reconcile_step ds st)) = channels (fst st)
   \<and> nChannelsOrig (snd (fold reconcile_step ds st)) = nChannelsOrig (snd st)"
proof (induction ds arbitrary: st)
  case Nil
  then show ?case by simp
next
  case (Cons d ds)
  from Cons [of "reconcile_step d st"] reconcile_step_keeps_channels [of d st]
  show ?case by simp
qed

lemma reconcile_keeps_channels:
  "channels (fst (reconcile ag st)) = channels (fst st)
   \<and> nChannelsOrig (snd (reconcile ag st)) = nChannels (fst st)"
proof -
  obtain c l where st: "st = (c, l)" by (cases st)
  from reconcile_fold_keeps_channels [of ag "(c, l\<lparr>nChannelsOrig := nChannels c, gcn := ag3_gcn (ag ! 0)\<rparr>)"]
  show ?thesis by (simp add: reconcile_def st)
qed

text \<open>Claim C5.  Let the reconciliation loop lower the channel count from \<open>C0\<close> to \<open>C1 < C0\<close>
  (with \<open>C1\<close> not negative and the \<open>C0 + C1\<close> slots the copy touches inside the channel
  array).  The copy loop that follows leaves the channel count at \<open>C1\<close>, keeps slots
  \<open>[0, C1)\<close>, puts into slot \<open>C1 + i\<close> what slot \<open>C0 + i\<close> held before for every \<open>i < C1\<close>,
  and changes no slot from \<open>2*C1\<close> on.  So every slot below \<open>2*C1\<close> holds the former
  content of a slot in \<open>[0, C1)\<close> or \<open>[C0, C0 + C1)\<close>, never of a dropped one.\<close>

theorem compact_channels_moves_duplicates:
  assumes rec: "reconcile ag (comm0, l0) = (comm1, l1)"
    and shrink: "0 \<le> nChannels comm1" "nChannels comm1 < nChannels comm0"
    and room: "nat (nChannels comm0) + nat (nChannels comm1) \<le> length (channels comm0)"
    and cmp: "compact_channels (comm1, l1) = (comm', l')"
  shows "nChannels comm' = nChannels comm1 \<and> length (channels comm') = length (channels comm0)
    \<and> (\<forall>j < nat (nChannels comm1). channels comm' ! j = channels comm0 ! j)
    \<and> (\<forall>i < nat (nChannels comm1).
          channels comm' ! (nat (nChannels comm1) + i) = channels comm0 ! (nat (nChannels comm0) + i))
    \<and> (\<forall>j. 2 * nat (nChannels comm1) \<le> j \<and> j < length (channels comm0)
          \<longrightarrow> channels comm' ! j = channels comm0 ! j)"
proof -
  from reconcile_keeps_channels [of ag "(comm0, l0)"] rec
  have k: "channels comm1 = channels comm0" "nChannelsOrig l1 = nChannels comm0" by simp_all
  from compact_channels_copy [of comm1 l1 comm' l'] shrink room cmp k
  show ?thesis by simp
qed

theorem compact_channels_moves_duplicates_witness:
  "nChannels (fst (reconcile ex_ag ex_st_channels)) = 2
   \<and> chan_id (channels (fst (compact_channels (reconcile ex_ag ex_st_channels))) ! 0) = 0
   \<and> chan_id (channels (fst (compact_channels (reconcile ex_ag ex_st_channels))) ! 1) = 1
   \<and> chan_id (channels (fst (compact_channels (reconcile ex_ag ex_st_channels))) ! 2) = 3
   \<and> chan_id (channels (fst (compact_channels (reconcile ex_ag ex_st_channels))) ! 3) = 4
   \<and> chan_id (channels (fst (compact_channels (reconcile ex_ag ex_st_channels))) ! 4) = 4"
proof -
  let ?c0 = "fst ex_st_channels" and ?l0 = "snd ex_st_channels"
  let ?R = "reconcile ex_ag ex_st_channels"
  let ?C = "compact_channels ?R"
  have n1: "nChannels (fst ?R) = 2"
    by (simp add: reconcile_def ex_st_channels_def ex_ag_def reconcile_step_def Let_def std_min_def
        ex_record_def allGather3_fill_def ex_st_def ex_locals_def ex_graph_def)
  have n0: "nChannels ?c0 = 3" "length (channels ?c0) = 8"
    by (simp_all add: ex_st_channels_def ex_channels8_def)
  have h: "reconcile ex_ag (?c0, ?l0) = (fst ?R, snd ?R)" "0 \<le> nChannels (fst ?R)"
    "nChannels (fst ?R) < nChannels ?c0"
    "nat (nChannels ?c0) + nat (nChannels (fst ?R)) \<le> length (channels ?c0)"
    "compact_channels (fst ?R, snd ?R) = (fst ?C, snd ?C)"
    using n1 n0 by simp_all
  from compact_channels_moves_duplicates [OF h] n1 n0
  have a: "\<forall>j < 2. channels (fst ?C) ! j = channels ?c0 ! j"
    and b: "\<forall>i < 2. channels (fst ?C) ! (2 + i) = channels ?c0 ! (3 + i)"
    and c: "\<forall>j. 4 \<le> j \<and> j < 8 \<longrightarrow> channels (fst ?C) ! j = channels ?c0 ! j"
    by simp_all
  from a [rule_format, of 0] a [rule_format, of 1] b [rule_format, of 0] b [rule_format, of 1]
    c [rule_format, of 4] n1
  show ?thesis by (simp add: ex_st_channels_def ex_channels8_def)
qed

section \<open>Reconciliation computes the minimum\<close>

lemma std_min_int: "std_min (<) (a::int) b = min a b"
  by (simp add: std_min_def min_def)

lemma fold_min_int:
  "fold (\<lambda>d a. std_min (<) (f d) a) ds (a0::int) = Min (insert a0 (f ` set ds))"
proof (induction ds arbitrary: a0)
  case Nil
  then show ?case by simp
next
  case (Cons d ds)
  have "Min (insert (min (f d) a0) (f ` set ds)) = Min (insert a0 (insert (f d) (f ` set ds)))"
  proof (cases "set ds = {}")
    case True
    then show ?thesis by (simp add: min.commute)
  next
    case False
    then show ?thesis by (simp add: min.assoc min.commute min.left_commute)
  qed
  with Cons show ?case by (simp add: std_min_int)
qed

lemma fold_min_int_own:
  "a0 \<in> f ` set ds \<Longrightarrow> fold (\<lambda>d a. std_min (<) (f d) a) ds (a0::int) = Min (f ` set ds)"
  by (simp add: fold_min_int insert_absorb)

lemma float_less_negtrans:
  "a \<noteq> FNaN \<Longrightarrow> b \<noteq> FNaN \<Longrightarrow> c \<noteq> FNaN \<Longrightarrow> \<not> float_less a b \<Longrightarrow> \<not> float_less b c \<Longrightarrow> \<not> float_less a c"
  by (cases a; cases b; cases c) auto

lemma float_less_irrefl: "\<not> float_less a a"
  by (cases a) auto

lemma float_less_asym: "float_less a b \<Longrightarrow> \<not> float_less b a"
  by (cases a; cases b) auto

lemma fold_min_float:
  "a0 \<noteq> FNaN \<Longrightarrow> \<forall>d\<in>set ds. f d \<noteq> FNaN \<Longrightarrow>
   fold (\<lambda>d a. std_min float_less (f d) a) ds a0 \<in> insert a0 (f ` set ds) \<and>
   (\<forall>y\<in>insert a0 (f ` set ds). \<not> float_less y (fold (\<lambda>d a. std_min float_less (f d) a) ds a0))"
proof (induction ds arbitrary: a0)
  case Nil
  then show ?case by (simp add: float_less_irrefl)
next
  case (Cons d ds)
  let ?m = "std_min float_less (f d) a0"
  have m: "?m \<noteq> FNaN" "?m = a0 \<or> ?m = f d" "\<not> float_less a0 ?m" "\<not> float_less (f d) ?m"
    using Cons.prems by (auto simp: std_min_def float_less_irrefl float_less_asym)
  from Cons.IH [of ?m] m(1) Cons.prems
  have ih: "fold (\<lambda>d a. std_min float_less (f d) a) ds ?m \<in> insert ?m (f ` set ds)"
    "\<forall>y\<in>insert ?m (f ` set ds). \<not> float_less y (fold (\<lambda>d a. std_min float_less (f d) a) ds ?m)"
    by auto
  let ?r = "fold (\<lambda>d a. std_min float_less (f d) a) ds ?m"
  have rn: "?r \<noteq> FNaN" using ih(1) m(1) Cons.prems by auto
  have "\<not> float_less ?m ?r" using ih(2) by simp
  then have "\<not> float_less a0 ?r" "\<not> float_less (f d) ?r"
    using float_less_negtrans [of a0 ?m ?r] float_less_negtrans [of "f d" ?m ?r] m rn Cons.prems
    by auto
  then show ?case using ih m(2) by auto
qed

lemma fold_min_float_own:
  assumes "a0 \<in> f ` set ds" "\<forall>d\<in>set ds. f d \<noteq> FNaN"
  shows "float_minimum (fold (\<lambda>d a. std_min float_less (f d) a) ds a0) (map f ds)"
proof -
  have "a0 \<noteq> FNaN" using assms by auto
  from fold_min_float [OF this assms(2)] assms(1) show ?thesis
    by (simp add: float_minimum_def insert_absorb)
qed

lemma reconcile_fold_fields:
  shows rf_nch: "nChannels (fst (fold reconcile_step ds (comm, l))) =
     fold (\<lambda>d a. std_min (<) (ag3_nChannels d) a) ds (nChannels comm)"
  and rf_tree_sameChannels: "tg_sameChannels (treeGraph (snd (fold reconcile_step ds (comm, l)))) =
     fold (\<lambda>d a. std_min (<) (sameChannels (ag3_tree d)) a) ds (tg_sameChannels (treeGraph l))"
  and rf_tree_typeIntra: "tg_typeIntra (treeGraph (snd (fold reconcile_step ds (comm, l)))) =
     fold (\<lambda>d a. std_min (<) (typeIntra (ag3_tree d)) a) ds (tg_typeIntra (treeGraph l))"
  and rf_tree_typeInter: "tg_typeInter (treeGraph (snd (fold reconcile_step ds (comm, l)))) =
     fold (\<lambda>d a. std_min (<) (typeInter (ag3_tree d)) a) ds (tg_typeInter (treeGraph l))"
  and rf_tree_speedIntra: "tg_speedIntra (treeGraph (snd (fold reconcile_step ds (comm, l)))) =
     fold (\<lambda>d a. std_min float_less (speedIntra (ag3_tree d)) a) ds (tg_speedIntra (treeGraph l))"
  and rf_tree_speedInter: "tg_speedInter (treeGraph (snd (fold reconcile_step ds (comm, l)))) =
     fold (\<lambda>d a. std_min float_less (speedInter (ag3_tree d)) a) ds (tg_speedInter (treeGraph l))"
  and rf_ring_sameChannels: "tg_sameChannels (ringGraph (snd (fold reconcile_step ds (comm, l)))) =
     fold (\<lambda>d a. std_min (<) (sameChannels (ag3_ring d)) a) ds (tg_sameChannels (ringGraph l))"
  and rf_ring_typeIntra: "tg_typeIntra (ringGraph (snd (fold reconcile_step ds (comm, l)))) =
     fold (\<lambda>d a. std_min (<) (typeIntra (ag3_ring d)) a) ds (tg_typeIntra (ringGraph l))"
  and rf_ring_typeInter: "tg_typeInter (ringGraph (snd (fold reconcile_step ds (comm, l)))) =
     fold (\<lambda>d a. std_min (<) (typeInter (ag3_ring d)) a) ds (tg_typeInter (ringGraph l))"
  and rf_ring_speedIntra: "tg_speedIntra (ringGraph (snd (fold reconcile_step ds (comm, l)))) =
     fold (\<lambda>d a. std_min float_less (speedIntra (ag3_ring d)) a) ds (tg_speedIntra (ringGraph l))"
  and rf_ring_speedInter: "tg_speedInter (ringGraph (snd (fold reconcile_step ds (comm, l)))) =
     fold (\<lambda>d a. std_min float_less (speedInter (ag3_ring d)) a) ds (tg_speedInter (ringGraph l))"
  and rf_collNet_sameChannels: "tg_sameChannels (collNetGraph (snd (fold reconcile_step ds (comm, l)))) =
     fold (\<lambda>d a. std_min (<) (sameChannels (ag3_collNet d)) a) ds (tg_sameChannels (collNetGraph l))"
  and rf_collNet_typeIntra: "tg_typeIntra (collNetGraph (snd (fold reconcile_step ds (comm, l)))) =
     fold (\<lambda>d a. std_min (<) (typeIntra (ag3_collNet d)) a) ds (tg_typeIntra (collNetGraph l))"
  and rf_collNet_typeInter: "tg_typeInter (collNetGraph (snd (fold reconcile_step ds (comm, l)))) =
     fold (\<lambda>d a. std_min (<) (typeInter (ag3_collNet d)) a) ds (tg_typeInter (collNetGraph l))"
  and rf_collNet_speedIntra: "tg_speedIntra (collNetGraph (snd (fold reconcile_step ds (comm, l)))) =
     fold (\<lambda>d a. std_min float_less (speedIntra (ag3_collNet d)) a) ds (tg_speedIntra (collNetGraph l))"
  and rf_collNet_speedInter: "tg_speedInter (collNetGraph (snd (fold reconcile_step ds (comm, l)))) =
     fold (\<lambda>d a. std_min float_less (speedInter (ag3_collNet d)) a) ds (tg_speedInter (collNetGraph l))"
  by (induction ds arbitrary: comm l) (simp_all add: reconcile_step_def reconcile_graph_def Let_def)

lemma reconcile_fold_graph_nChannels:
  "tg_nChannels (treeGraph l) = nChannels comm \<Longrightarrow> tg_nChannels (ringGraph l) = nChannels comm \<Longrightarrow>
   tg_nChannels (treeGraph (snd (fold reconcile_step ds (comm, l)))) = nChannels (fst (fold reconcile_step ds (comm, l))) \<and>
   tg_nChannels (ringGraph (snd (fold reconcile_step ds (comm, l)))) = nChannels (fst (fold reconcile_step ds (comm, l)))"
  by (induction ds arbitrary: comm l) (simp_all add: reconcile_step_def reconcile_graph_def Let_def)

lemma node_step_keeps:
  "nChannels (fst (node_step ag i st)) = nChannels (fst st)
   \<and> channels (fst (node_step ag i st)) = channels (fst st)
   \<and> treeGraph (snd (node_step ag i st)) = treeGraph (snd st)
   \<and> ringGraph (snd (node_step ag i st)) = ringGraph (snd st)
   \<and> collNetGraph (snd (node_step ag i st)) = collNetGraph (snd st)"
  by (cases st) (simp add: node_step_def Let_def)

lemma node_fold_keeps:
  "nChannels (fst (fold (node_step ag) is st)) = nChannels (fst st)
   \<and> channels (fst (fold (node_step ag) is st)) = channels (fst st)
   \<and> treeGraph (snd (fold (node_step ag) is st)) = treeGraph (snd st)
   \<and> ringGraph (snd (fold (node_step ag) is st)) = ringGraph (snd st)
   \<and> collNetGraph (snd (fold (node_step ag) is st)) = collNetGraph (snd st)"
proof (induction "is" arbitrary: st)
  case Nil
  then show ?case by simp
next
  case (Cons i "is")
  from Cons [of "node_step ag i st"] node_step_keeps [of ag i st] show ?case by simp
qed

lemma node_grouping_keeps:
  "nChannels (fst (node_grouping ag st)) = nChannels (fst st)
   \<and> channels (fst (node_grouping ag st)) = channels (fst st)
   \<and> treeGraph (snd (node_grouping ag st)) = treeGraph (snd st)
   \<and> ringGraph (snd (node_grouping ag st)) = ringGraph (snd st)
   \<and> collNetGraph (snd (node_grouping ag st)) = collNetGraph (snd st)"
proof -
  obtain c l where st: "st = (c, l)" by (cases st)
  from node_fold_keeps [of ag "[0..<length ag]"
      "(c, l\<lparr>nodesFirstRank := replicate (length ag) 0, nodesTreePatterns := replicate (length ag) 0\<rparr>)"]
  show ?thesis by (simp add: node_grouping_def st)
qed

text \<open>Claim C1.  A rank fills its record from its local graphs, and the gathered array \<open>ag\<close>
  holds that record in the rank's own slot.  Then after the node-grouping loop and the
  reconciliation loop the channel count (of the communicator and of the ring and tree
  graphs) and, for each of the three graphs, \<open>sameChannels\<close>, \<open>typeIntra\<close> and \<open>typeInter\<close>
  are the minimum of that member over all records of \<open>ag\<close>; and when no published speed
  is not-a-number, \<open>speedIntra\<close> and \<open>speedInter\<close> of each graph are a minimum of that
  member over all records too.  The right-hand sides mention neither the rank nor its
  local state, so every rank obtains the same values, whichever rank holds the minimum.\<close>

theorem reconcile_elementwise_minimum:
  assumes fill: "allGather3_fill cap gcn_gpu tr st = (d, st0)"
    and own: "myrank < length ag" "ag ! myrank = d"
    and res: "reconcile ag (node_grouping ag st0) = (comm', l')"
  shows "nChannels comm' = Min (ag3_nChannels ` set ag)
    \<and> tg_nChannels (treeGraph l') = Min (ag3_nChannels ` set ag)
    \<and> tg_nChannels (ringGraph l') = Min (ag3_nChannels ` set ag)
    \<and> tg_sameChannels (treeGraph l') = Min ((\<lambda>x. sameChannels (ag3_tree x)) ` set ag)
    \<and> tg_typeIntra (treeGraph l') = Min ((\<lambda>x. typeIntra (ag3_tree x)) ` set ag)
    \<and> tg_typeInter (treeGraph l') = Min ((\<lambda>x. typeInter (ag3_tree x)) ` set ag)
    \<and> tg_sameChannels (ringGraph l') = Min ((\<lambda>x. sameChannels (ag3_ring x)) ` set ag)
    \<and> tg_typeIntra (ringGraph l') = Min ((\<lambda>x. typeIntra (ag3_ring x)) ` set ag)
    \<and> tg_typeInter (ringGraph l') = Min ((\<lambda>x. typeInter (ag3_ring x)) ` set ag)
    \<and> tg_sameChannels (collNetGraph l') = Min ((\<lambda>x. sameChannels (ag3_collNet x)) ` set ag)
    \<and> tg_typeIntra (collNetGraph l') = Min ((\<lambda>x. typeIntra (ag3_collNet x)) ` set ag)
    \<and> tg_typeInter (collNetGraph l') = Min ((\<lambda>x. typeInter (ag3_collNet x)) ` set ag)
    \<and> ((\<forall>x\<in>set ag. no_nan_speeds x) \<longrightarrow>
          float_minimum (tg_speedIntra (treeGraph l')) (map (\<lambda>x. speedIntra (ag3_tree x)) ag)
        \<and> float_minimum (tg_speedInter (treeGraph l')) (map (\<lambda>x. speedInter (ag3_tree x)) ag)
        \<and> float_minimum (tg_speedIntra (ringGraph l')) (map (\<lambda>x. speedIntra (ag3_ring x)) ag)
        \<and> float_minimum (tg_speedInter (ringGraph l')) (map (\<lambda>x. speedInter (ag3_ring x)) ag)
        \<and> float_minimum (tg_speedIntra (collNetGraph l')) (map (\<lambda>x. speedIntra (ag3_collNet x)) ag)
        \<and> float_minimum (tg_speedInter (collNetGraph l')) (map (\<lambda>x. speedInter (ag3_collNet x)) ag))"
proof -
  obtain comm0 l0 where ng: "node_grouping ag st0 = (comm0, l0)" by (cases "node_grouping ag st0")
  obtain c s where st: "st = (c, s)" by (cases st)
  obtain cf lf where st0: "st0 = (cf, lf)" by (cases st0)
  have keep: "nChannels comm0 = nChannels cf" "treeGraph l0 = treeGraph lf"
    "ringGraph l0 = ringGraph lf" "collNetGraph l0 = collNetGraph lf"
    using node_grouping_keeps [of ag st0] ng st0 by simp_all
  have d_in: "d \<in> set ag" using own by (metis nth_mem)
  define l1 where "l1 = l0\<lparr>nChannelsOrig := nChannels comm0, gcn := ag3_gcn (ag ! 0)\<rparr>"
  have fold_eq: "fold reconcile_step ag (comm0, l1) = (comm', l')"
    using res by (simp add: reconcile_def ng l1_def)
  have g1: "treeGraph l1 = treeGraph lf" "ringGraph l1 = ringGraph lf" "collNetGraph l1 = collNetGraph lf"
    using keep by (simp_all add: l1_def)
  have init_n: "nChannels comm0 = ag3_nChannels d" "tg_nChannels (treeGraph l1) = nChannels comm0"
    "tg_nChannels (ringGraph l1) = nChannels comm0"
    using fill keep(1) by (auto simp: allGather3_fill_def st st0 g1 Let_def)
  have init_tree: "tg_sameChannels (treeGraph l1) = sameChannels (ag3_tree d)"
    "tg_typeIntra (treeGraph l1) = typeIntra (ag3_tree d)" "tg_typeInter (treeGraph l1) = typeInter (ag3_tree d)"
    "tg_speedIntra (treeGraph l1) = speedIntra (ag3_tree d)" "tg_speedInter (treeGraph l1) = speedInter (ag3_tree d)"
    using fill by (auto simp: allGather3_fill_def st st0 g1 Let_def graphInfo_of_def)
  have init_ring: "tg_sameChannels (ringGraph l1) = sameChannels (ag3_ring d)"
    "tg_typeIntra (ringGraph l1) = typeIntra (ag3_ring d)" "tg_typeInter (ringGraph l1) = typeInter (ag3_ring d)"
    "tg_speedIntra (ringGraph l1) = speedIntra (ag3_ring d)" "tg_speedInter (ringGraph l1) = speedInter (ag3_ring d)"
    using fill by (auto simp: allGather3_fill_def st st0 g1 Let_def graphInfo_of_def)
  have init_collNet: "tg_sameChannels (collNetGraph l1) = sameChannels (ag3_collNet d)"
    "tg_typeIntra (collNetGraph l1) = typeIntra (ag3_collNet d)" "tg_typeInter (collNetGraph l1) = typeInter (ag3_collNet d)"
    "tg_speedIntra (collNetGraph l1) = speedIntra (ag3_collNet d)" "tg_speedInter (collNetGraph l1) = speedInter (ag3_collNet d)"
    using fill by (auto simp: allGather3_fill_def st st0 g1 Let_def graphInfo_of_def)
  have n: "nChannels comm' = Min (ag3_nChannels ` set ag)"
    using rf_nch [of ag comm0 l1] fold_eq init_n(1) d_in
    by (simp add: fold_min_int_own)
  have gn: "tg_nChannels (treeGraph l') = nChannels comm'" "tg_nChannels (ringGraph l') = nChannels comm'"
    using reconcile_fold_graph_nChannels [OF init_n(2,3), of ag] fold_eq by simp_all
  have tree_sameChannels: "tg_sameChannels (treeGraph l') = Min ((\<lambda>x. sameChannels (ag3_tree x)) ` set ag)"
    using rf_tree_sameChannels [of ag comm0 l1] fold_eq init_tree d_in
    by (simp add: fold_min_int_own)
  have tree_typeIntra: "tg_typeIntra (treeGraph l') = Min ((\<lambda>x. typeIntra (ag3_tree x)) ` set ag)"
    using rf_tree_typeIntra [of ag comm0 l1] fold_eq init_tree d_in
    by (simp add: fold_min_int_own)
  have tree_typeInter: "tg_typeInter (treeGraph l') = Min ((\<lambda>x. typeInter (ag3_tree x)) ` set ag)"
    using rf_tree_typeInter [of ag comm0 l1] fold_eq init_tree d_in
    by (simp add: fold_min_int_own)
  have tree_speedIntra: "float_minimum (tg_speedIntra (treeGraph l')) (map (\<lambda>x. speedIntra (ag3_tree x)) ag)"
    if nonan: "\<forall>x\<in>set ag. no_nan_speeds x"
  proof -
    have "\<forall>x\<in>set ag. speedIntra (ag3_tree x) \<noteq> FNaN" using nonan by (simp add: no_nan_speeds_def)
    moreover have "tg_speedIntra (treeGraph l1) \<in> (\<lambda>x. speedIntra (ag3_tree x)) ` set ag" using init_tree d_in by simp
    ultimately show ?thesis
      using fold_min_float_own [of "tg_speedIntra (treeGraph l1)" "\<lambda>x. speedIntra (ag3_tree x)" ag]
        rf_tree_speedIntra [of ag comm0 l1] fold_eq by simp
  qed
  have tree_speedInter: "float_minimum (tg_speedInter (treeGraph l')) (map (\<lambda>x. speedInter (ag3_tree x)) ag)"
    if nonan: "\<forall>x\<in>set ag. no_nan_speeds x"
  proof -
    have "\<forall>x\<in>set ag. speedInter (ag3_tree x) \<noteq> FNaN" using nonan by (simp add: no_nan_speeds_def)
    moreover have "tg_speedInter (treeGraph l1) \<in> (\<lambda>x. speedInter (ag3_tree x)) ` set ag" using init_tree d_in by simp
    ultimately show ?thesis
      using fold_min_float_own [of "tg_speedInter (treeGraph l1)" "\<lambda>x. speedInter (ag3_tree x)" ag]
        rf_tree_speedInter [of ag comm0 l1] fold_eq by simp
  qed
  have ring_sameChannels: "tg_sameChannels (ringGraph l') = Min ((\<lambda>x. sameChannels (ag3_ring x)) ` set ag)"
    using rf_ring_sameChannels [of ag comm0 l1] fold_eq init_ring d_in
    by (simp add: fold_min_int_own)
  have ring_typeIntra: "tg_typeIntra (ringGraph l') = Min ((\<lambda>x. typeIntra (ag3_ring x)) ` set ag)"
    using rf_ring_typeIntra [of ag comm0 l1] fold_eq init_ring d_in
    by (simp add: fold_min_int_own)
  have ring_typeInter: "tg_typeInter (ringGraph l') = Min ((\<lambda>x. typeInter (ag3_ring x)) ` set ag)"
    using rf_ring_typeInter [of ag comm0 l1] fold_eq init_ring d_in
    by (simp add: fold_min_int_own)
  have ring_speedIntra: "float_minimum (tg_speedIntra (ringGraph l')) (map (\<lambda>x. speedIntra (ag3_ring x)) ag)"
    if nonan: "\<forall>x\<in>set ag. no_nan_speeds x"
  proof -
    have "\<forall>x\<in>set ag. speedIntra (ag3_ring x) \<noteq> FNaN" using nonan by (simp add: no_nan_speeds_def)
    moreover have "tg_speedIntra (ringGraph l1) \<in> (\<lambda>x. speedIntra (ag3_ring x)) ` set ag" using init_ring d_in by simp
    ultimately show ?thesis
      using fold_min_float_own [of "tg_speedIntra (ringGraph l1)" "\<lambda>x. speedIntra (ag3_ring x)" ag]
        rf_ring_speedIntra [of ag comm0 l1] fold_eq by simp
  qed
  have ring_speedInter: "float_minimum (tg_speedInter (ringGraph l')) (map (\<lambda>x. speedInter (ag3_ring x)) ag)"
    if nonan: "\<forall>x\<in>set ag. no_nan_speeds x"
  proof -
    have "\<forall>x\<in>set ag. speedInter (ag3_ring x) \<noteq> FNaN" using nonan by (simp add: no_nan_speeds_def)
    moreover have "tg_speedInter (ringGraph l1) \<in> (\<lambda>x. speedInter (ag3_ring x)) ` set ag" using init_ring d_in by simp
    ultimately show ?thesis
      using fold_min_float_own [of "tg_speedInter (ringGraph l1)" "\<lambda>x. speedInter (ag3_ring x)" ag]
        rf_ring_speedInter [of ag comm0 l1] fold_eq by simp
  qed
  have collNet_sameChannels: "tg_sameChannels (collNetGraph l') = Min ((\<lambda>x. sameChannels (ag3_collNet x)) ` set ag)"
    using rf_collNet_sameChannels [of ag comm0 l1] fold_eq init_collNet d_in
    by (simp add: fold_min_int_own)
  have collNet_typeIntra: "tg_typeIntra (collNetGraph l') = Min ((\<lambda>x. typeIntra (ag3_collNet x)) ` set ag)"
    using rf_collNet_typeIntra [of ag comm0 l1] fold_eq init_collNet d_in
    by (simp add: fold_min_int_own)
  have collNet_typeInter: "tg_typeInter (collNetGraph l') = Min ((\<lambda>x. typeInter (ag3_collNet x)) ` set ag)"
    using rf_collNet_typeInter [of ag comm0 l1] fold_eq init_collNet d_in
    by (simp add: fold_min_int_own)
  have collNet_speedIntra: "float_minimum (tg_speedIntra (collNetGraph l')) (map (\<lambda>x. speedIntra (ag3_collNet x)) ag)"
    if nonan: "\<forall>x\<in>set ag. no_nan_speeds x"
  proof -
    have "\<forall>x\<in>set ag. speedIntra (ag3_collNet x) \<noteq> FNaN" using nonan by (simp add: no_nan_speeds_def)
    moreover have "tg_speedIntra (collNetGraph l1) \<in> (\<lambda>x. speedIntra (ag3_collNet x)) ` set ag" using init_collNet d_in by simp
    ultimately show ?thesis
      using fold_min_float_own [of "tg_speedIntra (collNetGraph l1)" "\<lambda>x. speedIntra (ag3_collNet x)" ag]
        rf_collNet_speedIntra [of ag comm0 l1] fold_eq by simp
  qed
  have collNet_speedInter: "float_minimum (tg_speedInter (collNetGraph l')) (map (\<lambda>x. speedInter (ag3_collNet x)) ag)"
    if nonan: "\<forall>x\<in>set ag. no_nan_speeds x"
  proof -
    have "\<forall>x\<in>set ag. speedInter (ag3_collNet x) \<noteq> FNaN" using nonan by (simp add: no_nan_speeds_def)
    moreover have "tg_speedInter (collNetGraph l1) \<in> (\<lambda>x. speedInter (ag3_collNet x)) ` set ag" using init_collNet d_in by simp
    ultimately show ?thesis
      using fold_min_float_own [of "tg_speedInter (collNetGraph l1)" "\<lambda>x. speedInter (ag3_collNet x)" ag]
        rf_collNet_speedInter [of ag comm0 l1] fold_eq by simp
  qed
  have ints: "nChannels comm' = Min (ag3_nChannels ` set ag)
    \<and> tg_nChannels (treeGraph l') = Min (ag3_nChannels ` set ag)
    \<and> tg_nChannels (ringGraph l') = Min (ag3_nChannels ` set ag)
    \<and> tg_sameChannels (treeGraph l') = Min ((\<lambda>x. sameChannels (ag3_tree x)) ` set ag)
    \<and> tg_typeIntra (treeGraph l') = Min ((\<lambda>x. typeIntra (ag3_tree x)) ` set ag)
    \<and> tg_typeInter (treeGraph l') = Min ((\<lambda>x. typeInter (ag3_tree x)) ` set ag)
    \<and> tg_sameChannels (ringGraph l') = Min ((\<lambda>x. sameChannels (ag3_ring x)) ` set ag)
    \<and> tg_typeIntra (ringGraph l') = Min ((\<lambda>x. typeIntra (ag3_ring x)) ` set ag)
    \<and> tg_typeInter (ringGraph l') = Min ((\<lambda>x. typeInter (ag3_ring x)) ` set ag)
    \<and> tg_sameChannels (collNetGraph l') = Min ((\<lambda>x. sameChannels (ag3_collNet x)) ` set ag)
    \<and> tg_typeIntra (collNetGraph l') = Min ((\<lambda>x. typeIntra (ag3_collNet x)) ` set ag)
    \<and> tg_typeInter (collNetGraph l') = Min ((\<lambda>x. typeInter (ag3_collNet x)) ` set ag)"
    using n gn tree_sameChannels tree_typeIntra tree_typeInter ring_sameChannels ring_typeIntra ring_typeInter collNet_sameChannels collNet_typeIntra collNet_typeInter by simp
  show ?thesis
    using ints tree_speedIntra tree_speedInter ring_speedIntra ring_speedInter collNet_speedIntra collNet_speedInter
    by blast
qed

theorem reconcile_elementwise_minimum_witness:
  "nChannels (fst (reconcile ex_ag (node_grouping ex_ag (snd (allGather3_fill 0 0 \<lparr>ringRecv = [0]\<rparr> ex_st))))) = 2
   \<and> tg_sameChannels (treeGraph (snd (reconcile ex_ag (node_grouping ex_ag (snd (allGather3_fill 0 0 \<lparr>ringRecv = [0]\<rparr> ex_st)))))) = 0
   \<and> tg_speedIntra (treeGraph (snd (reconcile ex_ag (node_grouping ex_ag (snd (allGather3_fill 0 0 \<lparr>ringRecv = [0]\<rparr> ex_st)))))) = FFin 20
   \<and> tg_speedIntra (ringGraph (snd (reconcile ex_ag (node_grouping ex_ag (snd (allGather3_fill 0 0 \<lparr>ringRecv = [0]\<rparr> ex_st)))))) = FFin 18
   \<and> tg_typeInter (ringGraph (snd (reconcile ex_ag (node_grouping ex_ag (snd (allGather3_fill 0 0 \<lparr>ringRecv = [0]\<rparr> ex_st)))))) = 3"
proof -
  let ?f = "allGather3_fill 0 0 \<lparr>ringRecv = [0]\<rparr> ex_st"
  let ?r = "reconcile ex_ag (node_grouping ex_ag (snd ?f))"
  have h: "?f = (fst ?f, snd ?f)" "1 < length ex_ag" "ex_ag ! 1 = fst ?f" "?r = (fst ?r, snd ?r)"
    by (simp_all add: ex_ag_def)
  have n: "\<forall>x\<in>set ex_ag. no_nan_speeds x"
    by (simp add: ex_ag_def no_nan_speeds_def ex_record_def graphInfo_of_def ex_graph_def
        allGather3_fill_def ex_st_def ex_locals_def Let_def)
  from reconcile_elementwise_minimum [OF h] n
  have "nChannels (fst ?r) = Min (ag3_nChannels ` set ex_ag)"
    and "tg_sameChannels (treeGraph (snd ?r)) = Min ((\<lambda>x. sameChannels (ag3_tree x)) ` set ex_ag)"
    and "float_minimum (tg_speedIntra (treeGraph (snd ?r))) (map (\<lambda>x. speedIntra (ag3_tree x)) ex_ag)"
    and "float_minimum (tg_speedIntra (ringGraph (snd ?r))) (map (\<lambda>x. speedIntra (ag3_ring x)) ex_ag)"
    and "tg_typeInter (ringGraph (snd ?r)) = Min ((\<lambda>x. typeInter (ag3_ring x)) ` set ex_ag)"
    by blast+
  then show ?thesis
    by (auto simp: ex_ag_def float_minimum_def ex_record_def graphInfo_of_def ex_graph_def
        allGather3_fill_def ex_st_def ex_locals_def Let_def std_min_def)
qed

section \<open>Node grouping is a function of the gathered array\<close>

lemma first_seen_snoc:
  "first_seen (xs @ [x]) = (if x \<in> set xs then first_seen xs else first_seen xs @ [x])"
  by (simp add: first_seen_def)

lemma set_first_seen: "set (first_seen xs) = set xs"
  by (simp add: first_seen_def)

lemma length_first_seen: "length (first_seen xs) \<le> length xs"
  by (simp add: first_seen_def length_remdups_leq [of "rev xs", simplified])

lemma find_node_fold_cases:
  "(fold (\<lambda>n nd. if nfr ! n = v then int n else nd) [0..<m] (- 1) = - 1 \<and> (\<forall>n<m. nfr ! n \<noteq> v)) \<or>
   (0 \<le> fold (\<lambda>n nd. if nfr ! n = v then int n else nd) [0..<m] (- 1)
      \<and> nat (fold (\<lambda>n nd. if nfr ! n = v then int n else nd) [0..<m] (- 1)) < m
      \<and> nfr ! nat (fold (\<lambda>n nd. if nfr ! n = v then int n else nd) [0..<m] (- 1)) = v)"
proof (induction m)
  case 0
  then show ?case by simp
next
  case (Suc m)
  show ?case
  proof (cases "nfr ! m = v")
    case True
    then show ?thesis by simp
  next
    case False
    with Suc show ?thesis by (auto simp: less_Suc_eq)
  qed
qed

lemma find_node_cases:
  "(find_node nfr (int m) v = - 1 \<and> (\<forall>n<m. nfr ! n \<noteq> v)) \<or>
   (0 \<le> find_node nfr (int m) v \<and> nat (find_node nfr (int m) v) < m
      \<and> nfr ! nat (find_node nfr (int m) v) = v)"
  using find_node_fold_cases [of nfr v m] by (simp add: find_node_def)

lemma take_nth_set: "v \<in> set (take m xs) \<Longrightarrow> \<exists>n<m. xs ! n = v"
  by (metis in_set_conv_nth length_take min_less_iff_conj nth_take)

lemma find_node_absent:
  assumes "take m nfr = F" "length F = m" "v \<notin> set F"
  shows "find_node nfr (int m) v = - 1"
proof -
  have "\<not> (\<exists>n<m. nfr ! n = v)"
  proof
    assume "\<exists>n<m. nfr ! n = v"
    then obtain n where n: "n < m" "nfr ! n = v" by blast
    then have "F ! n = v" using assms(1) by auto
    then show False using assms n by (metis nth_mem)
  qed
  then show ?thesis using find_node_cases [of nfr m v] by auto
qed

lemma find_node_present:
  assumes "take m nfr = F" "length F = m" "v \<in> set F"
  shows "0 \<le> find_node nfr (int m) v \<and> nat (find_node nfr (int m) v) < m
      \<and> nfr ! nat (find_node nfr (int m) v) = v"
proof -
  from assms obtain n where "n < m" "nfr ! n = v"
    using take_nth_set [of v m nfr] by auto
  then show ?thesis using find_node_cases [of nfr m v] by auto
qed

lemma node_step_inv:
  assumes k: "k < length ag" and inv: "node_inv ag r k st"
  shows "node_inv ag r (Suc k) (node_step ag k st)"
proof -
  obtain c l where st: "st = (c, l)" by (cases st)
  define F where "F = first_seen (map first_ring_rank (take k ag))"
  define v where "v = first_ring_rank (ag ! k)"
  define nfr where "nfr = nodesFirstRank l"
  define ntp where "ntp = nodesTreePatterns l"
  have tk: "take (Suc k) ag = take k ag @ [ag ! k]"
    using k by (simp add: take_Suc_conv_app_nth)
  have setF: "set F = first_ring_rank ` set (take k ag)"
    by (simp add: F_def set_first_seen)
  have F': "first_seen (map first_ring_rank (take (Suc k) ag)) = (if v \<in> set F then F else F @ [v])"
    by (simp add: tk first_seen_snoc set_first_seen F_def v_def)
  from inv have rk: "rank c = r" and nn: "nNodes c = int (length F)"
    and len: "length nfr = length ag" "length ntp = length ag"
    and tkF: "take (length F) nfr = F"
    and pat: "\<forall>m < length F. \<exists>i<k. first_ring_rank (ag ! i) = nfr ! m
                   \<and> (\<forall>j<i. first_ring_rank (ag ! j) \<noteq> nfr ! m)
                   \<and> ntp ! m = pattern (ag3_tree (ag ! i))"
    and nd: "0 \<le> r \<and> nat r < k \<longrightarrow> 0 \<le> node c \<and> nat (node c) < length F
              \<and> nfr ! nat (node c) = first_ring_rank (ag ! nat r)"
    by (simp_all add: node_inv_def st F_def nfr_def ntp_def)
  have lenF: "length F \<le> k"
    using length_first_seen [of "map first_ring_rank (take k ag)"] k by (simp add: F_def)
  have fr: "ringRecv (ag3_topoRanks (ag ! k)) ! 0 = v"
    by (simp add: v_def first_ring_rank_def)
  show ?thesis
  proof (cases "v \<in> set F")
    case True
    define found where "found = find_node nfr (int (length F)) v"
    from find_node_present [OF tkF refl True]
    have fnd: "0 \<le> found" "nat found < length F" "nfr ! nat found = v"
      by (simp_all add: found_def)
    then have ne: "found \<noteq> - 1" by simp
    define c2 where "c2 = (if int k = r then c\<lparr>node := found\<rparr> else c)"
    have step: "node_step ag k st = (c2, l)"
      using ne by (simp add: node_step_def st Let_def fr nn nfr_def [symmetric] found_def [symmetric] rk c2_def)
    have pat': "\<forall>m < length F. \<exists>i<Suc k. first_ring_rank (ag ! i) = nfr ! m
                   \<and> (\<forall>j<i. first_ring_rank (ag ! j) \<noteq> nfr ! m)
                   \<and> ntp ! m = pattern (ag3_tree (ag ! i))"
      using pat less_Suc_eq by blast
    have nd': "0 \<le> r \<and> nat r < Suc k \<longrightarrow>
        0 \<le> node c2 \<and> nat (node c2) < length F
        \<and> nfr ! nat (node c2) = first_ring_rank (ag ! nat r)"
    proof (cases "int k = r")
      case True
      then have "nat r = k" by auto
      with True fnd show ?thesis by (simp add: v_def c2_def)
    next
      case False
      then have "0 \<le> r \<and> nat r < Suc k \<longrightarrow> nat r < k" by auto
      with False nd show ?thesis by (auto simp: c2_def)
    qed
    have c2f: "rank c2 = r" "nNodes c2 = int (length F)"
      using rk nn by (simp_all add: c2_def)
    have Fv: "first_seen (map first_ring_rank (take (Suc k) ag)) = F"
      using F' True by simp
    have lf: "nodesFirstRank l = nfr" "nodesTreePatterns l = ntp"
      by (simp_all add: nfr_def ntp_def)
    note all = c2f len tkF pat' nd'
    show ?thesis
      unfolding node_inv_def step prod.case Fv lf
      by (intro conjI all)
  next
    case False
    have ab: "find_node nfr (int (length F)) v = - 1"
      using find_node_absent [OF tkF refl False] .
    define c1 where "c1 = c\<lparr>nNodes := int (length F) + 1\<rparr>"
    define nfr' where "nfr' = nfr[length F := v]"
    define ntp' where "ntp' = ntp[length F := pattern (ag3_tree (ag ! k))]"
    define l1 where "l1 = l\<lparr>nodesFirstRank := nfr', nodesTreePatterns := ntp'\<rparr>"
    define c2 where "c2 = (if int k = r then c1\<lparr>node := int (length F)\<rparr> else c1)"
    have step: "node_step ag k st = (c2, l1)"
      using ab by (simp add: node_step_def st Let_def fr nn nfr_def [symmetric] ntp_def [symmetric]
          rk c1_def l1_def nfr'_def ntp'_def c2_def)
    have inr: "length F < length nfr" "length F < length ntp" using lenF k len by simp_all
    have tk': "take (length (F @ [v])) nfr' = F @ [v]"
      using inr tkF by (simp add: nfr'_def take_Suc_conv_app_nth)
    have new: "\<forall>j<k. first_ring_rank (ag ! j) \<noteq> v"
    proof (intro allI impI)
      fix j assume "j < k"
      then have jl: "j < length (take k ag)" using k by simp
      have "take k ag ! j \<in> set (take k ag)" using jl by (rule nth_mem)
      then have "ag ! j \<in> set (take k ag)" using \<open>j < k\<close> by simp
      then have "first_ring_rank (ag ! j) \<in> set F" using setF by blast
      with False show "first_ring_rank (ag ! j) \<noteq> v" by auto
    qed
    have pat': "\<forall>m < length (F @ [v]). \<exists>i<Suc k. first_ring_rank (ag ! i) = nfr' ! m
                   \<and> (\<forall>j<i. first_ring_rank (ag ! j) \<noteq> nfr' ! m)
                   \<and> ntp' ! m = pattern (ag3_tree (ag ! i))"
    proof (intro allI impI)
      fix m assume m: "m < length (F @ [v])"
      show "\<exists>i<Suc k. first_ring_rank (ag ! i) = nfr' ! m
                   \<and> (\<forall>j<i. first_ring_rank (ag ! j) \<noteq> nfr' ! m)
                   \<and> ntp' ! m = pattern (ag3_tree (ag ! i))"
      proof (cases "m = length F")
        case True
        then have "nfr' ! m = v" "ntp' ! m = pattern (ag3_tree (ag ! k))"
          using inr by (simp_all add: nfr'_def ntp'_def)
        with new show ?thesis by (auto simp: v_def)
      next
        case False
        with m have mF: "m < length F" by simp
        then have same: "nfr' ! m = nfr ! m" "ntp' ! m = ntp ! m"
          by (simp_all add: nfr'_def ntp'_def)
        from pat mF obtain i where "i < k" "first_ring_rank (ag ! i) = nfr ! m"
          "\<forall>j<i. first_ring_rank (ag ! j) \<noteq> nfr ! m" "ntp ! m = pattern (ag3_tree (ag ! i))"
          by blast
        with same show ?thesis using less_Suc_eq by auto
      qed
    qed
    have nd': "0 \<le> r \<and> nat r < Suc k \<longrightarrow>
        0 \<le> node c2 \<and> nat (node c2) < length (F @ [v])
        \<and> nfr' ! nat (node c2) = first_ring_rank (ag ! nat r)"
    proof (cases "int k = r")
      case True
      then have "nat r = k" by auto
      with True inr show ?thesis by (simp add: v_def nfr'_def c2_def)
    next
      case False
      then have "0 \<le> r \<and> nat r < Suc k \<longrightarrow> nat r < k" by auto
      with False nd show ?thesis by (auto simp: c1_def nfr'_def c2_def)
    qed
    have c1f: "rank c2 = r" "nNodes c2 = int (length (F @ [v]))"
      using rk by (simp_all add: c1_def c2_def)
    have l1f: "nodesFirstRank l1 = nfr'" "nodesTreePatterns l1 = ntp'" by (simp_all add: l1_def)
    have len': "length nfr' = length ag" "length ntp' = length ag"
      using len by (simp_all add: nfr'_def ntp'_def)
    have Fv: "first_seen (map first_ring_rank (take (Suc k) ag)) = F @ [v]"
      using F' False by simp
    note all = c1f len' tk' pat' nd'
    show ?thesis
      unfolding node_inv_def step prod.case Fv l1f
      by (intro conjI all)
  qed
qed

lemma node_fold_inv:
  "k \<le> length ag \<Longrightarrow> node_inv ag r 0 st \<Longrightarrow> node_inv ag r k (fold (node_step ag) [0..<k] st)"
proof (induction k)
  case 0
  then show ?case by simp
next
  case (Suc k)
  then have "node_inv ag r k (fold (node_step ag) [0..<k] st)" by simp
  then have "node_inv ag r (Suc k) (node_step ag k (fold (node_step ag) [0..<k] st))"
    using Suc.prems by (intro node_step_inv) simp_all
  then show ?case by simp
qed

lemma node_step_common:
  assumes "nNodes (fst s1) = nNodes (fst s2)"
    and "nodesFirstRank (snd s1) = nodesFirstRank (snd s2)"
    and "nodesTreePatterns (snd s1) = nodesTreePatterns (snd s2)"
  shows "nNodes (fst (node_step ag i s1)) = nNodes (fst (node_step ag i s2))
     \<and> nodesFirstRank (snd (node_step ag i s1)) = nodesFirstRank (snd (node_step ag i s2))
     \<and> nodesTreePatterns (snd (node_step ag i s1)) = nodesTreePatterns (snd (node_step ag i s2))"
  using assms by (cases s1; cases s2) (simp add: node_step_def Let_def)

lemma node_fold_common:
  "nNodes (fst s1) = nNodes (fst s2) \<Longrightarrow>
   nodesFirstRank (snd s1) = nodesFirstRank (snd s2) \<Longrightarrow>
   nodesTreePatterns (snd s1) = nodesTreePatterns (snd s2) \<Longrightarrow>
   nNodes (fst (fold (node_step ag) is s1)) = nNodes (fst (fold (node_step ag) is s2))
     \<and> nodesFirstRank (snd (fold (node_step ag) is s1)) = nodesFirstRank (snd (fold (node_step ag) is s2))
     \<and> nodesTreePatterns (snd (fold (node_step ag) is s1)) = nodesTreePatterns (snd (fold (node_step ag) is s2))"
proof (induction "is" arbitrary: s1 s2)
  case Nil
  then show ?case by simp
next
  case (Cons i "is")
  from node_step_common [OF Cons.prems, of ag i]
  show ?case using Cons.IH [of "node_step ag i s1" "node_step ag i s2"] by simp
qed

text \<open>Claim C4.  On a communicator whose \<^verbatim>\<open>nNodes\<close> is still zero, the node-grouping loop
  yields: as node count the number of distinct first-ring ranks in the gathered array; as
  first-rank list these distinct values in the order of their first occurrence by ascending
  rank; for each node the tree pattern of the lowest rank that reported its value; and as
  \<^verbatim>\<open>comm->node\<close> the index of the own first-ring rank in that list.  A second communicator
  (another rank, other local state) run on the same array ends with the same node count,
  first-rank array and tree-pattern array.\<close>

theorem node_grouping_deterministic:
  assumes fresh: "nNodes comm = 0" "nNodes commB = 0"
    and resA: "node_grouping ag (comm, l) = (comm', l')"
    and resB: "node_grouping ag (commB, lB) = (commB', lB')"
  shows "nNodes comm' = int (length (first_seen (map first_ring_rank ag)))
    \<and> take (nat (nNodes comm')) (nodesFirstRank l') = first_seen (map first_ring_rank ag)
    \<and> (\<forall>m < nat (nNodes comm'). \<exists>i<length ag.
           first_ring_rank (ag ! i) = nodesFirstRank l' ! m
         \<and> (\<forall>j<i. first_ring_rank (ag ! j) \<noteq> nodesFirstRank l' ! m)
         \<and> nodesTreePatterns l' ! m = pattern (ag3_tree (ag ! i)))
    \<and> (0 \<le> rank comm \<and> nat (rank comm) < length ag \<longrightarrow>
           0 \<le> node comm' \<and> node comm' < nNodes comm'
         \<and> nodesFirstRank l' ! nat (node comm') = first_ring_rank (ag ! nat (rank comm)))
    \<and> nNodes commB' = nNodes comm' \<and> nodesFirstRank lB' = nodesFirstRank l'
    \<and> nodesTreePatterns lB' = nodesTreePatterns l'"
proof -
  define l0 where "l0 = l\<lparr>nodesFirstRank := replicate (length ag) 0,
                   nodesTreePatterns := replicate (length ag) 0\<rparr>"
  define lB0 where "lB0 = lB\<lparr>nodesFirstRank := replicate (length ag) 0,
                   nodesTreePatterns := replicate (length ag) 0\<rparr>"
  have fA: "fold (node_step ag) [0..<length ag] (comm, l0) = (comm', l')"
    using resA by (simp add: node_grouping_def l0_def)
  have fB: "fold (node_step ag) [0..<length ag] (commB, lB0) = (commB', lB')"
    using resB by (simp add: node_grouping_def lB0_def)
  have "node_inv ag (rank comm) 0 (comm, l0)"
    by (simp add: node_inv_def first_seen_def fresh l0_def)
  from node_fold_inv [OF le_refl this] fA
  have inv: "node_inv ag (rank comm) (length ag) (comm', l')" by simp
  define F where "F = first_seen (map first_ring_rank ag)"
  from inv have nn: "nNodes comm' = int (length F)"
    and tkF: "take (length F) (nodesFirstRank l') = F"
    and pat: "\<forall>m < length F. \<exists>i<length ag. first_ring_rank (ag ! i) = nodesFirstRank l' ! m
                   \<and> (\<forall>j<i. first_ring_rank (ag ! j) \<noteq> nodesFirstRank l' ! m)
                   \<and> nodesTreePatterns l' ! m = pattern (ag3_tree (ag ! i))"
    and nd: "0 \<le> rank comm \<and> nat (rank comm) < length ag \<longrightarrow> 0 \<le> node comm'
              \<and> nat (node comm') < length F
              \<and> nodesFirstRank l' ! nat (node comm') = first_ring_rank (ag ! nat (rank comm))"
    by (simp_all add: node_inv_def F_def)
  have nd': "0 \<le> rank comm \<and> nat (rank comm) < length ag \<longrightarrow>
           0 \<le> node comm' \<and> node comm' < nNodes comm'
         \<and> nodesFirstRank l' ! nat (node comm') = first_ring_rank (ag ! nat (rank comm))"
    using nd nn by auto
  have "nNodes (fst (commB, lB0)) = nNodes (fst (comm, l0))"
    "nodesFirstRank (snd (commB, lB0)) = nodesFirstRank (snd (comm, l0))"
    "nodesTreePatterns (snd (commB, lB0)) = nodesTreePatterns (snd (comm, l0))"
    by (simp_all add: fresh l0_def lB0_def)
  from node_fold_common [OF this, of ag "[0..<length ag]"] fA fB
  have common: "nNodes commB' = nNodes comm'" "nodesFirstRank lB' = nodesFirstRank l'"
    "nodesTreePatterns lB' = nodesTreePatterns l'"
    by simp_all
  show ?thesis
    using nn tkF pat nd' common by (simp add: F_def)
qed

theorem node_grouping_deterministic_witness:
  "nNodes (fst (node_grouping ex_ag4 ((calloc_comm 8)\<lparr>rank := 3, nRanks := 4\<rparr>,
       ex_locals (ex_graph 4 2 0 22 10 2 5) (ex_graph 0 2 1 18 12 3 3) (ex_graph 1 2 0 10 8 2 2)))) = 2
   \<and> take 2 (nodesFirstRank (snd (node_grouping ex_ag4 ((calloc_comm 8)\<lparr>rank := 3, nRanks := 4\<rparr>,
       ex_locals (ex_graph 4 2 0 22 10 2 5) (ex_graph 0 2 1 18 12 3 3) (ex_graph 1 2 0 10 8 2 2))))) = [0, 2]
   \<and> nNodes (fst (node_grouping ex_ag4 ((calloc_comm 8)\<lparr>rank := 0, nRanks := 4\<rparr>,
       ex_locals (ex_graph 1 2 0 22 10 2 5) (ex_graph 0 2 1 18 12 3 3) (ex_graph 1 2 0 10 8 2 2)))) = 2
   \<and> nodesFirstRank (snd (node_grouping ex_ag4 ((calloc_comm 8)\<lparr>rank := 3, nRanks := 4\<rparr>,
       ex_locals (ex_graph 4 2 0 22 10 2 5) (ex_graph 0 2 1 18 12 3 3) (ex_graph 1 2 0 10 8 2 2))))
       ! nat (node (fst (node_grouping ex_ag4 ((calloc_comm 8)\<lparr>rank := 3, nRanks := 4\<rparr>,
       ex_locals (ex_graph 4 2 0 22 10 2 5) (ex_graph 0 2 1 18 12 3 3) (ex_graph 1 2 0 10 8 2 2))))) = 2"
proof -
  let ?cA = "(calloc_comm 8)\<lparr>rank := 3, nRanks := 4\<rparr>"
  let ?lA = "ex_locals (ex_graph 4 2 0 22 10 2 5) (ex_graph 0 2 1 18 12 3 3) (ex_graph 1 2 0 10 8 2 2)"
  let ?cB = "(calloc_comm 8)\<lparr>rank := 0, nRanks := 4\<rparr>"
  let ?lB = "ex_locals (ex_graph 1 2 0 22 10 2 5) (ex_graph 0 2 1 18 12 3 3) (ex_graph 1 2 0 10 8 2 2)"
  let ?A = "node_grouping ex_ag4 (?cA, ?lA)"
  let ?B = "node_grouping ex_ag4 (?cB, ?lB)"
  have h: "nNodes ?cA = 0" "nNodes ?cB = 0" "?A = (fst ?A, snd ?A)" "?B = (fst ?B, snd ?B)"
    by (simp_all add: calloc_comm_def)
  have fs: "first_seen (map first_ring_rank ex_ag4) = [0, 2]"
    by (simp add: first_seen_def first_ring_rank_def ex_ag4_def ex_record_def)
  have rk: "rank ?cA = 3" "length ex_ag4 = 4" "first_ring_rank (ex_ag4 ! 3) = 2"
    by (simp_all add: ex_ag4_def first_ring_rank_def ex_record_def)
  from node_grouping_deterministic [OF h]
  have a: "nNodes (fst ?A) = int (length (first_seen (map first_ring_rank ex_ag4)))"
    and b: "take (nat (nNodes (fst ?A))) (nodesFirstRank (snd ?A)) = first_seen (map first_ring_rank ex_ag4)"
    and c: "0 \<le> rank ?cA \<and> nat (rank ?cA) < length ex_ag4 \<longrightarrow>
           0 \<le> node (fst ?A) \<and> node (fst ?A) < nNodes (fst ?A)
         \<and> nodesFirstRank (snd ?A) ! nat (node (fst ?A)) = first_ring_rank (ex_ag4 ! nat (rank ?cA))"
    and d: "nNodes (fst ?B) = nNodes (fst ?A)"
    by blast+
  from a fs have a': "nNodes (fst ?A) = 2" by simp
  from b a' fs have b': "take 2 (nodesFirstRank (snd ?A)) = [0, 2]" by simp
  from c rk have c': "nodesFirstRank (snd ?A) ! nat (node (fst ?A)) = 2" by simp
  from a' b' c' d show ?thesis by simp
qed

section \<open>The duplicate-device check\<close>

lemma peerInfo_loop_fst:
  "\<forall>i\<in>set is. i < length pinfo \<Longrightarrow>
   fst (peerInfo_loop is myrank myInfo ag pinfo) =
     (if \<exists>i\<in>set is. int i \<noteq> myrank \<and> hostHash (ag1_peerInfo (ag ! i)) = hostHash myInfo
                       \<and> pi_busId (ag1_peerInfo (ag ! i)) = pi_busId myInfo
      then ncclInvalidUsage else ncclSuccess)"
proof (induction "is" arbitrary: pinfo)
  case Nil
  then show ?case by simp
next
  case (Cons i "is")
  let ?p1 = "pinfo[i := ag1_peerInfo (ag ! i)]"
  let ?hit = "\<lambda>i. int i \<noteq> myrank \<and> hostHash (ag1_peerInfo (ag ! i)) = hostHash myInfo
                       \<and> pi_busId (ag1_peerInfo (ag ! i)) = pi_busId myInfo"
  have i: "?p1 ! i = ag1_peerInfo (ag ! i)" using Cons.prems by simp
  have len: "\<forall>j\<in>set is. j < length ?p1" using Cons.prems by simp
  show ?case
  proof (cases "?hit i")
    case True
    then have "peerInfo_loop (i # is) myrank myInfo ag pinfo = (ncclInvalidUsage, ?p1)"
      using i by (simp add: Let_def)
    with True show ?thesis by simp
  next
    case False
    then have "peerInfo_loop (i # is) myrank myInfo ag pinfo = peerInfo_loop is myrank myInfo ag ?p1"
      using i by (auto simp: Let_def)
    then have eq1: "fst (peerInfo_loop (i # is) myrank myInfo ag pinfo) =
       (if \<exists>i\<in>set is. ?hit i then ncclInvalidUsage else ncclSuccess)"
      using Cons.IH [OF len] by (simp only:)
    have ex: "(\<exists>j\<in>set (i # is). ?hit j) = (\<exists>j\<in>set is. ?hit j)"
      using False by auto
    show ?thesis unfolding ex by (rule eq1)
  qed
qed

lemma allGather1_check_iff:
  assumes "myrank < length ag"
  shows "fst (allGather1_check (int myrank) ag) =
     (if \<exists>i<length ag. i \<noteq> myrank \<and> same_device (ag ! i) (ag ! myrank)
      then ncclInvalidUsage else ncclSuccess)"
proof -
  have len: "\<forall>i\<in>set [0..<length ag]. i < length (replicate (length ag + 1) calloc_peerInfo)"
    by simp
  have "(\<exists>i\<in>set [0..<length ag]. int i \<noteq> int myrank
           \<and> hostHash (ag1_peerInfo (ag ! i)) = hostHash (ag1_peerInfo (ag ! myrank))
           \<and> pi_busId (ag1_peerInfo (ag ! i)) = pi_busId (ag1_peerInfo (ag ! myrank)))
        \<longleftrightarrow> (\<exists>i<length ag. i \<noteq> myrank \<and> same_device (ag ! i) (ag ! myrank))"
    by (simp add: same_device_def Bex_def)
  with peerInfo_loop_fst [OF len, of "int myrank" "ag1_peerInfo (ag ! myrank)" ag]
  show ?thesis
    by (simp only: allGather1_check_def nat_int)
qed

text \<open>Claim C3, as the code has it.  A rank compares every other gathered record with its
  own only.  It returns \<^verbatim>\<open>ncclInvalidUsage\<close>, with nothing of the rest of the
  initialisation run, exactly when some other rank reports its own host hash and bus id;
  otherwise the check passes and the initialisation goes on.  When no two distinct ranks
  share the pair, the check passes on every rank.  The counterexample has ranks 0 and 1
  on one device and rank 2 on another: rank 2 passes.\<close>

theorem allGather1_duplicate_check:
  assumes "myrank < length ag"
  shows "((\<exists>i<length ag. i \<noteq> myrank \<and> same_device (ag ! i) (ag ! myrank)) \<longrightarrow>
            initTransportsRank_after_allGather1 (int myrank) ag rest w = (ncclInvalidUsage, w))
     \<and> (\<not> (\<exists>i<length ag. i \<noteq> myrank \<and> same_device (ag ! i) (ag ! myrank)) \<longrightarrow>
            fst (allGather1_check (int myrank) ag) = ncclSuccess
          \<and> initTransportsRank_after_allGather1 (int myrank) ag rest w =
              rest (snd (allGather1_check (int myrank) ag)) w)
     \<and> ((\<forall>i<length ag. \<forall>j<length ag. i \<noteq> j \<longrightarrow> \<not> same_device (ag ! i) (ag ! j)) \<longrightarrow>
            fst (allGather1_check (int myrank) ag) = ncclSuccess)"
proof -
  obtain res pinfo where c: "allGather1_check (int myrank) ag = (res, pinfo)"
    by (cases "allGather1_check (int myrank) ag")
  have res: "res = (if \<exists>i<length ag. i \<noteq> myrank \<and> same_device (ag ! i) (ag ! myrank)
      then ncclInvalidUsage else ncclSuccess)"
    using allGather1_check_iff [OF assms] c by simp
  have a: "(\<exists>i<length ag. i \<noteq> myrank \<and> same_device (ag ! i) (ag ! myrank)) \<longrightarrow>
            initTransportsRank_after_allGather1 (int myrank) ag rest w = (ncclInvalidUsage, w)"
    using res c by (simp add: initTransportsRank_after_allGather1_def)
  have b: "\<not> (\<exists>i<length ag. i \<noteq> myrank \<and> same_device (ag ! i) (ag ! myrank)) \<longrightarrow>
            fst (allGather1_check (int myrank) ag) = ncclSuccess
          \<and> initTransportsRank_after_allGather1 (int myrank) ag rest w =
              rest (snd (allGather1_check (int myrank) ag)) w"
    using res c by (simp add: initTransportsRank_after_allGather1_def)
  have d: "(\<forall>i<length ag. \<forall>j<length ag. i \<noteq> j \<longrightarrow> \<not> same_device (ag ! i) (ag ! j)) \<longrightarrow>
            fst (allGather1_check (int myrank) ag) = ncclSuccess"
    using res c assms by auto
  from a b d show ?thesis by blast
qed

theorem allGather1_duplicate_check_witness:
  "initTransportsRank_after_allGather1 0 ex_ag1 (\<lambda>pinfo w. (ncclSuccess, Suc w)) 0 = (ncclInvalidUsage, 0)
   \<and> initTransportsRank_after_allGather1 2 ex_ag1 (\<lambda>pinfo w. (ncclSuccess, Suc w)) 0 = (ncclSuccess, 1)"
proof -
  have l: "0 < length ex_ag1" "2 < length ex_ag1" by (simp_all add: ex_ag1_def)
  have d0: "\<exists>i<length ex_ag1. i \<noteq> 0 \<and> same_device (ex_ag1 ! i) (ex_ag1 ! 0)"
    by (rule exI [of _ 1]) (simp add: ex_ag1_def ex_peer_def same_device_def)
  have d2: "\<not> (\<exists>i<length ex_ag1. i \<noteq> 2 \<and> same_device (ex_ag1 ! i) (ex_ag1 ! 2))"
  proof
    assume "\<exists>i<length ex_ag1. i \<noteq> 2 \<and> same_device (ex_ag1 ! i) (ex_ag1 ! 2)"
    then obtain i where i: "i < length ex_ag1" "i \<noteq> 2" "same_device (ex_ag1 ! i) (ex_ag1 ! 2)"
      by blast
    from i(1,2) have "i = 0 \<or> i = 1" by (auto simp: ex_ag1_def)
    with i(3) show False by (auto simp: ex_ag1_def ex_peer_def same_device_def)
  qed
  from allGather1_duplicate_check [OF l(1), of "\<lambda>pinfo w. (ncclSuccess, Suc w)" 0] d0
  have a: "initTransportsRank_after_allGather1 0 ex_ag1 (\<lambda>pinfo w. (ncclSuccess, Suc w)) 0 = (ncclInvalidUsage, 0)"
    by simp
  from allGather1_duplicate_check [OF l(2), of "\<lambda>pinfo w. (ncclSuccess, Suc w)" 0] d2
  have b: "initTransportsRank_after_allGather1 2 ex_ag1 (\<lambda>pinfo w. (ncclSuccess, Suc w)) 0 = (ncclSuccess, 1)"
    by simp
  from a b show ?thesis by simp
qed

theorem allGather1_duplicate_check_counterexample:
  "same_device (ex_ag1 ! 0) (ex_ag1 ! 1) \<and> fst (allGather1_check 2 ex_ag1) = ncclSuccess"
  by (simp add: ex_ag1_def ex_peer_def same_device_def allGather1_check_def upt_rec Let_def)

section \<open>Collective-network support is all or nothing\<close>

lemma run_steps_append:
  "run_steps (fs @ gs) s =
     (case run_steps fs s of (r, s') \<Rightarrow> if r = ncclSuccess then run_steps gs s' else (r, s'))"
  by (induction fs arbitrary: s) (auto split: prod.splits)

lemma any_failure_nonzero:
  "(\<exists>x\<in>set fs. x \<noteq> 0) \<Longrightarrow> any_failure fs f = 1"
  by (induction fs) auto

lemma any_failure_zero:
  "(\<forall>x\<in>set fs. x = 0) \<Longrightarrow> any_failure fs f = f"
  by (induction fs) auto

lemma free_connector_released:
  "free_connector env conn w = (res, w') \<Longrightarrow>
   set (released w) \<subseteq> set (released w') \<and>
   (transportResources conn \<noteq> 0 \<and> transportComm conn \<noteq> 0 \<longrightarrow>
      TransportRes (transportComm conn) (transportResources conn) \<in> set (released w'))"
  by (auto simp: free_connector_def split: if_splits)

lemma free_collnet_channel_ok:
  assumes "free_collnet_channel env nranks r (comm, w) = (ncclSuccess, (comm', w'))"
  shows "comm' = comm\<lparr>channels := (channels comm)[r := null_collnet_peer nranks (channels comm ! r)]\<rparr>"
    and "set (released w) \<subseteq> set (released w')"
    and "connector_released (send (peers (channels comm ! r) ! nranks)) w'"
    and "connector_released (recv (peers (channels comm ! r) ! nranks)) w'"
proof -
  let ?peer = "peers (channels comm ! r) ! nranks"
  obtain res1 w1 where f1: "free_connector env (send ?peer) w = (res1, w1)"
    by (cases "free_connector env (send ?peer) w")
  obtain res2 w2 where f2: "free_connector env (recv ?peer) w1 = (res2, w2)"
    by (cases "free_connector env (recv ?peer) w1")
  from assms f1 f2 have r1: "res1 = ncclSuccess" and r2: "res2 = ncclSuccess"
    by (auto simp: free_collnet_channel_def Let_def split: if_splits)
  from assms f1 f2 r1 r2 have w': "w' = w2"
    and c': "comm' = comm\<lparr>channels := (channels comm)[r := null_collnet_peer nranks (channels comm ! r)]\<rparr>"
    by (simp_all add: free_collnet_channel_def Let_def null_collnet_peer_def)
  from free_connector_released [OF f1] free_connector_released [OF f2]
  have "set (released w) \<subseteq> set (released w2)"
    "connector_released (send ?peer) w2" "connector_released (recv ?peer) w2"
    by (auto simp: connector_released_def)
  with w' c' show "comm' = comm\<lparr>channels := (channels comm)[r := null_collnet_peer nranks (channels comm ! r)]\<rparr>"
    and "set (released w) \<subseteq> set (released w')"
    and "connector_released (send (peers (channels comm ! r) ! nranks)) w'"
    and "connector_released (recv (peers (channels comm ! r) ! nranks)) w'"
    by simp_all
qed

lemma collnet_freed_step:
  assumes inv: "collnet_freed_upto nranks comm0 k (comm, w)"
    and k: "k < length (channels comm0)" "nranks < length (peers (channels comm0 ! k))"
    and step: "free_collnet_channel env nranks k (comm, w) = (ncclSuccess, (comm', w'))"
  shows "collnet_freed_upto nranks comm0 (Suc k) (comm', w')"
proof -
  from inv have len: "length (channels comm) = length (channels comm0)"
    and rest: "\<forall>r<length (channels comm0). k \<le> r \<longrightarrow> channels comm ! r = channels comm0 ! r"
    and dn: "\<forall>r<k. transportResources (send (peers (channels comm ! r) ! nranks)) = 0
                 \<and> transportResources (recv (peers (channels comm ! r) ! nranks)) = 0
                 \<and> connector_released (send (peers (channels comm0 ! r) ! nranks)) w
                 \<and> connector_released (recv (peers (channels comm0 ! r) ! nranks)) w"
    by (simp_all add: collnet_freed_upto_def)
  have ck: "channels comm ! k = channels comm0 ! k" using rest k by simp
  note ok = free_collnet_channel_ok [OF step]
  have chs: "channels comm' = (channels comm)[k := null_collnet_peer nranks (channels comm0 ! k)]"
    using ok(1) ck by simp
  have len': "length (channels comm') = length (channels comm0)" using chs len by simp
  have rest': "\<forall>r<length (channels comm0). Suc k \<le> r \<longrightarrow> channels comm' ! r = channels comm0 ! r"
    using chs rest by simp
  have mono: "\<And>c. connector_released c w \<Longrightarrow> connector_released c w'"
    using ok(2) by (auto simp: connector_released_def)
  have dn': "\<forall>r<Suc k. transportResources (send (peers (channels comm' ! r) ! nranks)) = 0
                 \<and> transportResources (recv (peers (channels comm' ! r) ! nranks)) = 0
                 \<and> connector_released (send (peers (channels comm0 ! r) ! nranks)) w'
                 \<and> connector_released (recv (peers (channels comm0 ! r) ! nranks)) w'"
  proof (intro allI impI)
    fix r assume r: "r < Suc k"
    show "transportResources (send (peers (channels comm' ! r) ! nranks)) = 0
                 \<and> transportResources (recv (peers (channels comm' ! r) ! nranks)) = 0
                 \<and> connector_released (send (peers (channels comm0 ! r) ! nranks)) w'
                 \<and> connector_released (recv (peers (channels comm0 ! r) ! nranks)) w'"
    proof (cases "r = k")
      case True
      have "channels comm' ! k = null_collnet_peer nranks (channels comm0 ! k)"
        using chs k len by simp
      then have "transportResources (send (peers (channels comm' ! k) ! nranks)) = 0"
        "transportResources (recv (peers (channels comm' ! k) ! nranks)) = 0"
        using k(2) by (simp_all add: null_collnet_peer_def)
      with True ok(3,4) ck show ?thesis by simp
    next
      case False
      with r have rk: "r < k" by simp
      then have "channels comm' ! r = channels comm ! r" using chs by simp
      with dn rk mono show ?thesis by simp
    qed
  qed
  show ?thesis
    unfolding collnet_freed_upto_def prod.case
    by (intro conjI len' rest' dn')
qed

lemma collnet_freed_loop:
  "k \<le> length (channels comm0) \<Longrightarrow>
   \<forall>r<k. nranks < length (peers (channels comm0 ! r)) \<Longrightarrow>
   run_steps (map (free_collnet_channel env nranks) [0..<k]) (comm0, w0) = (ncclSuccess, st) \<Longrightarrow>
   collnet_freed_upto nranks comm0 k st"
proof (induction k arbitrary: st)
  case 0
  then show ?case by (auto simp: collnet_freed_upto_def)
next
  case (Suc k)
  obtain r1 st1 where r1: "run_steps (map (free_collnet_channel env nranks) [0..<k]) (comm0, w0) = (r1, st1)"
    by (cases "run_steps (map (free_collnet_channel env nranks) [0..<k]) (comm0, w0)")
  from Suc.prems(3) r1 have ok1: "r1 = ncclSuccess"
    by (auto simp: run_steps_append split: if_splits)
  from Suc.prems(3) r1 ok1 have last: "free_collnet_channel env nranks k st1 = (ncclSuccess, st)"
    by (auto simp: run_steps_append split: prod.splits if_splits)
  have inv: "collnet_freed_upto nranks comm0 k st1"
    using Suc.IH [of st1] Suc.prems r1 ok1 by simp
  obtain c1 w1 where st1: "st1 = (c1, w1)" by (cases st1)
  obtain c' w' where st: "st = (c', w')" by (cases st)
  from collnet_freed_step [of nranks comm0 k c1 w1 env c' w'] inv last Suc.prems(1,2) st1 st
  show ?case by simp
qed

lemma checkCollNetSetup_fail_path:
  assumes gathered: "ce_allGather env ((replicate (nat (nRanks comm)) 0)[nat myrank := fail]) = (gres, flags)"
    and nz: "any_failure (take (nat (nRanks comm)) flags) fail \<noteq> 0"
    and alloc: "nat (nChannels comm) \<le> length (channels comm)"
      "\<forall>r<nat (nChannels comm). nat (nRanks comm) < length (peers (channels comm ! r))"
    and ok: "checkCollNetSetup env myrank fail (comm, w) = (ncclSuccess, (comm', w'))"
  shows "collNetSupport comm' = 0
     \<and> (\<forall>r<nat (nChannels comm).
            transportResources (send (peers (channels comm' ! r) ! nat (nRanks comm))) = 0
          \<and> transportResources (recv (peers (channels comm' ! r) ! nat (nRanks comm))) = 0
          \<and> connector_released (send (peers (channels comm ! r) ! nat (nRanks comm))) w'
          \<and> connector_released (recv (peers (channels comm ! r) ! nat (nRanks comm))) w')"
proof -
  let ?loop = "run_steps (map (free_collnet_channel env (nat (nRanks comm))) [0..<nat (nChannels comm)]) (comm, w)"
  obtain res1 comm1 w1 where loop: "?loop = (res1, (comm1, w1))"
    by (cases ?loop) auto
  from ok gathered nz loop have c: "ce_calloc env = ncclSuccess" "gres = ncclSuccess"
    "res1 = ncclSuccess" "comm' = comm1\<lparr>collNetSupport := 0\<rparr>" "w' = w1"
    by (auto simp: checkCollNetSetup_def Let_def split: if_splits)
  from collnet_freed_loop [OF alloc] loop c(3)
  have "collnet_freed_upto (nat (nRanks comm)) comm (nat (nChannels comm)) (comm1, w1)" by simp
  then show ?thesis using c(4,5) by (simp add: collnet_freed_upto_def)
qed

lemma checkCollNetSetup_ok_path:
  assumes gathered: "ce_allGather env ((replicate (nat (nRanks comm)) 0)[nat myrank := fail]) = (gres, flags)"
    and z: "any_failure (take (nat (nRanks comm)) flags) fail = 0"
    and ok: "checkCollNetSetup env myrank fail (comm, w) = (ncclSuccess, (comm', w'))"
  shows "comm' = comm\<lparr>collNetSupport := 1\<rparr> \<and> w' = w"
  using ok gathered z by (auto simp: checkCollNetSetup_def Let_def split: if_splits)

lemma run_steps_all_success:
  "\<forall>f\<in>set fs. \<forall>s. fst (f s) = ncclSuccess \<Longrightarrow> fst (run_steps fs s) = ncclSuccess"
proof (induction fs arbitrary: s)
  case Nil
  then show ?case by simp
next
  case (Cons f fs)
  obtain r s1 where f: "f s = (r, s1)" by (cases "f s")
  from Cons.prems have "fst (f s) = ncclSuccess" by simp
  with f have r: "r = ncclSuccess" by simp
  from Cons.IH [of s1] Cons.prems have "fst (run_steps fs s1) = ncclSuccess" by simp
  with f r show ?case by simp
qed

lemma free_collnet_channel_success:
  assumes "\<forall>tc res. ce_free env tc res = ncclSuccess"
  shows "fst (free_collnet_channel env nranks r st) = ncclSuccess"
  using assms
  by (cases st) (simp add: free_collnet_channel_def free_connector_def Let_def split: prod.splits)

lemma checkCollNetSetup_returns_success:
  assumes "ce_calloc env = ncclSuccess"
    and "fst (ce_allGather env ((replicate (nat (nRanks comm)) 0)[nat myrank := fail])) = ncclSuccess"
    and "\<forall>tc res. ce_free env tc res = ncclSuccess"
  shows "fst (checkCollNetSetup env myrank fail (comm, w)) = ncclSuccess"
proof -
  have "fst (run_steps (map (free_collnet_channel env (nat (nRanks comm))) [0..<nat (nChannels comm)])
          (comm, w)) = ncclSuccess"
    by (rule run_steps_all_success) (simp add: free_collnet_channel_success [OF assms(3)])
  then show ?thesis
    using assms(1,2)
    by (auto simp: checkCollNetSetup_def Let_def split: prod.splits)
qed

lemma checkCollNetSetup_on_success:
  assumes gathered: "ce_allGather env ((replicate (nat (nRanks comm)) 0)[nat myrank := fail]) = (gres, flags)"
    and len: "length flags = nat (nRanks comm)"
    and alloc: "nat (nChannels comm) \<le> length (channels comm)"
      "\<forall>r<nat (nChannels comm). nat (nRanks comm) < length (peers (channels comm ! r))"
    and ok: "checkCollNetSetup env myrank fail (comm, w) = (ncclSuccess, (comm', w'))"
  shows "((\<exists>i<length flags. flags ! i \<noteq> 0) \<longrightarrow>
            collNetSupport comm' = 0
          \<and> (\<forall>r<nat (nChannels comm).
                transportResources (send (peers (channels comm' ! r) ! nat (nRanks comm))) = 0
              \<and> transportResources (recv (peers (channels comm' ! r) ! nat (nRanks comm))) = 0
              \<and> connector_released (send (peers (channels comm ! r) ! nat (nRanks comm))) w'
              \<and> connector_released (recv (peers (channels comm ! r) ! nat (nRanks comm))) w'))
     \<and> (collNetSupport comm' = 1 \<longrightarrow> (\<forall>i<length flags. flags ! i = 0))
     \<and> (nat myrank < length flags \<and> flags ! nat myrank = fail \<longrightarrow>
          collNetSupport comm' = (if \<exists>i<length flags. flags ! i \<noteq> 0 then 0 else 1))"
proof -
  have tk: "take (nat (nRanks comm)) flags = flags" using len by simp
  have ex: "(\<exists>i<length flags. flags ! i \<noteq> 0) \<longleftrightarrow> (\<exists>x\<in>set flags. x \<noteq> 0)"
    by (metis in_set_conv_nth)
  show ?thesis
  proof (cases "\<exists>i<length flags. flags ! i \<noteq> 0")
    case True
    then have "any_failure (take (nat (nRanks comm)) flags) fail \<noteq> 0"
      using any_failure_nonzero [of flags fail] ex tk by simp
    from checkCollNetSetup_fail_path [OF gathered this alloc ok] True
    show ?thesis by simp
  next
    case False
    then have all0: "\<forall>x\<in>set flags. x = 0" using ex by blast
    then have af: "any_failure (take (nat (nRanks comm)) flags) fail = fail"
      using any_failure_zero [of flags fail] tk by simp
    show ?thesis
    proof (cases "fail = 0")
      case True
      with af checkCollNetSetup_ok_path [OF gathered _ ok] have "collNetSupport comm' = 1" by simp
      with False show ?thesis by auto
    next
      case nf: False
      with af have "any_failure (take (nat (nRanks comm)) flags) fail \<noteq> 0" by simp
      from checkCollNetSetup_fail_path [OF gathered this alloc ok]
      have "collNetSupport comm' = 0" by simp
      moreover have "\<not> (nat myrank < length flags \<and> flags ! nat myrank = fail)"
        using all0 nf by (metis nth_mem)
      ultimately show ?thesis using False by auto
    qed
  qed
qed

text \<open>Claim C2.  Take a communicator whose first \<^verbatim>\<open>nChannels\<close> channels have their
  \<^verbatim>\<open>nranks+1\<close> peer slots, and let \<open>flags\<close> be the gathered array of one flag per rank.
  When \<^verbatim>\<open>ncclCalloc\<close>, \<^verbatim>\<open>bootstrapAllGather\<close> and the transports' \<^verbatim>\<open>free\<close> succeed,
  \<open>checkCollNetSetup\<close> returns \<^verbatim>\<open>ncclSuccess\<close>.  Whenever it returns \<^verbatim>\<open>ncclSuccess\<close>: if some
  gathered flag is nonzero, then \<^verbatim>\<open>collNetSupport\<close> is 0 and, for every channel below
  \<^verbatim>\<open>nChannels\<close>, the send and recv \<^verbatim>\<open>transportResources\<close> of the collective-network peer
  slot are \<^verbatim>\<open>NULL\<close> and the resources they held have been passed to their transport's
  \<^verbatim>\<open>free\<close>; \<^verbatim>\<open>collNetSupport\<close> is 1 only if all gathered flags are zero; and where the
  gathered array holds the rank's own flag in its own slot, \<^verbatim>\<open>collNetSupport\<close> is a
  function of the gathered array alone (0 if some flag is nonzero, else 1), so all ranks
  that gathered the same array agree.\<close>

theorem checkCollNetSetup_all_or_nothing:
  assumes gathered: "ce_allGather env ((replicate (nat (nRanks comm)) 0)[nat myrank := fail]) = (gres, flags)"
    and len: "length flags = nat (nRanks comm)"
    and alloc: "nat (nChannels comm) \<le> length (channels comm)"
      "\<forall>r<nat (nChannels comm). nat (nRanks comm) < length (peers (channels comm ! r))"
  shows "(ce_calloc env = ncclSuccess \<and> gres = ncclSuccess \<and> (\<forall>tc res. ce_free env tc res = ncclSuccess)
            \<longrightarrow> fst (checkCollNetSetup env myrank fail (comm, w)) = ncclSuccess)
     \<and> (checkCollNetSetup env myrank fail (comm, w) = (ncclSuccess, (comm', w')) \<longrightarrow>
          ((\<exists>i<length flags. flags ! i \<noteq> 0) \<longrightarrow>
              collNetSupport comm' = 0
            \<and> (\<forall>r<nat (nChannels comm).
                  transportResources (send (peers (channels comm' ! r) ! nat (nRanks comm))) = 0
                \<and> transportResources (recv (peers (channels comm' ! r) ! nat (nRanks comm))) = 0
                \<and> connector_released (send (peers (channels comm ! r) ! nat (nRanks comm))) w'
                \<and> connector_released (recv (peers (channels comm ! r) ! nat (nRanks comm))) w'))
        \<and> (collNetSupport comm' = 1 \<longrightarrow> (\<forall>i<length flags. flags ! i = 0))
        \<and> (nat myrank < length flags \<and> flags ! nat myrank = fail \<longrightarrow>
             collNetSupport comm' = (if \<exists>i<length flags. flags ! i \<noteq> 0 then 0 else 1)))"
proof -
  have A: "ce_calloc env = ncclSuccess \<and> gres = ncclSuccess \<and> (\<forall>tc res. ce_free env tc res = ncclSuccess)
            \<longrightarrow> fst (checkCollNetSetup env myrank fail (comm, w)) = ncclSuccess"
    using checkCollNetSetup_returns_success [of env comm myrank fail w] gathered by simp
  have B: "checkCollNetSetup env myrank fail (comm, w) = (ncclSuccess, (comm', w')) \<longrightarrow>
          ((\<exists>i<length flags. flags ! i \<noteq> 0) \<longrightarrow>
              collNetSupport comm' = 0
            \<and> (\<forall>r<nat (nChannels comm).
                  transportResources (send (peers (channels comm' ! r) ! nat (nRanks comm))) = 0
                \<and> transportResources (recv (peers (channels comm' ! r) ! nat (nRanks comm))) = 0
                \<and> connector_released (send (peers (channels comm ! r) ! nat (nRanks comm))) w'
                \<and> connector_released (recv (peers (channels comm ! r) ! nat (nRanks comm))) w'))
        \<and> (collNetSupport comm' = 1 \<longrightarrow> (\<forall>i<length flags. flags ! i = 0))
        \<and> (nat myrank < length flags \<and> flags ! nat myrank = fail \<longrightarrow>
             collNetSupport comm' = (if \<exists>i<length flags. flags ! i \<noteq> 0 then 0 else 1))"
    using checkCollNetSetup_on_success [OF gathered len alloc] by blast
  from A B show ?thesis by (rule conjI)
qed

theorem checkCollNetSetup_all_or_nothing_witness:
  "fst (checkCollNetSetup ex_collnet_env 0 0 (ex_collnet_comm, ex_world)) = ncclSuccess
   \<and> collNetSupport (fst (snd (checkCollNetSetup ex_collnet_env 0 0 (ex_collnet_comm, ex_world)))) = 0
   \<and> transportResources (send (peers (channels
        (fst (snd (checkCollNetSetup ex_collnet_env 0 0 (ex_collnet_comm, ex_world)))) ! 0) ! 2)) = 0
   \<and> transportResources (recv (peers (channels
        (fst (snd (checkCollNetSetup ex_collnet_env 0 0 (ex_collnet_comm, ex_world)))) ! 0) ! 2)) = 0
   \<and> TransportRes 7 100 \<in> set (released
        (snd (snd (checkCollNetSetup ex_collnet_env 0 0 (ex_collnet_comm, ex_world)))))
   \<and> TransportRes 8 200 \<in> set (released
        (snd (snd (checkCollNetSetup ex_collnet_env 0 0 (ex_collnet_comm, ex_world)))))"
proof -
  let ?R = "checkCollNetSetup ex_collnet_env 0 0 (ex_collnet_comm, ex_world)"
  have g: "ce_allGather ex_collnet_env ((replicate (nat (nRanks ex_collnet_comm)) 0)[nat 0 := 0])
            = (ncclSuccess, [0, 1])"
    by (simp add: ex_collnet_env_def ex_collnet_comm_def calloc_comm_def numeral_2_eq_2)
  have l: "length [0, 1 :: int] = nat (nRanks ex_collnet_comm)"
    by (simp add: ex_collnet_comm_def)
  have a: "nat (nChannels ex_collnet_comm) \<le> length (channels ex_collnet_comm)"
    "\<forall>r<nat (nChannels ex_collnet_comm).
       nat (nRanks ex_collnet_comm) < length (peers (channels ex_collnet_comm ! r))"
    by (simp_all add: ex_collnet_comm_def ex_peers3_def)
  have s: "fst ?R = ncclSuccess"
    by (simp add: checkCollNetSetup_def ex_collnet_env_def ex_collnet_comm_def calloc_comm_def
        numeral_2_eq_2 free_collnet_channel_def free_connector_def ex_peers3_def Let_def)
  then have ok: "?R = (ncclSuccess, (fst (snd ?R), snd (snd ?R)))"
    by (simp add: prod_eq_iff)
  have nz: "\<exists>i<length [0, 1 :: int]. [0, 1 :: int] ! i \<noteq> 0"
    by (rule exI [of _ 1]) simp
  from checkCollNetSetup_all_or_nothing [OF g l a, where w = ex_world and comm' = "fst (snd ?R)"
      and w' = "snd (snd ?R)"] ok nz
  have c: "collNetSupport (fst (snd ?R)) = 0"
    and d: "\<forall>r<nat (nChannels ex_collnet_comm).
                transportResources (send (peers (channels (fst (snd ?R)) ! r) ! nat (nRanks ex_collnet_comm))) = 0
              \<and> transportResources (recv (peers (channels (fst (snd ?R)) ! r) ! nat (nRanks ex_collnet_comm))) = 0
              \<and> connector_released (send (peers (channels ex_collnet_comm ! r) ! nat (nRanks ex_collnet_comm))) (snd (snd ?R))
              \<and> connector_released (recv (peers (channels ex_collnet_comm ! r) ! nat (nRanks ex_collnet_comm))) (snd (snd ?R))"
    by blast+
  from d [rule_format, of 0] have
    "transportResources (send (peers (channels (fst (snd ?R)) ! 0) ! 2)) = 0"
    "transportResources (recv (peers (channels (fst (snd ?R)) ! 0) ! 2)) = 0"
    "TransportRes 7 100 \<in> set (released (snd (snd ?R)))"
    "TransportRes 8 200 \<in> set (released (snd (snd ?R)))"
    by (simp_all add: ex_collnet_comm_def ex_peers3_def connector_released_def)
  with s c show ?thesis by simp
qed

section \<open>Destroy, double destroy and abort\<close>

lemma ncclCommDestroy_sentinel:
  assumes "\<not> valid_comm c"
  shows "ncclCommDestroy env (Some (Allocated c)) w = Inr (ncclInvalidArgument, Some (Allocated c), w)"
  using assms by (auto simp: ncclCommDestroy_def valid_comm_def)

lemma ncclCommDestroy_valid:
  assumes "valid_comm c"
  shows "ncclCommDestroy env (Some (Allocated c)) w =
     (case commDestroy env
             (c, if cliqueManager c \<noteq> 0
                 then w\<lparr>released := released w @ [Clique (cliqueManager c)]\<rparr> else w) of
        (res, (block, w')) \<Rightarrow> Inr (res, Some block, w'))"
  using assms by (auto simp: ncclCommDestroy_def valid_comm_def)

lemma c_free_success: "fst (c_free member st) = ncclSuccess"
  by (cases st) (simp add: c_free_def)

lemma barrier_step_success:
  "fst (le_ncclCpuBarrierIn env) = ncclSuccess \<Longrightarrow> fst (barrier_step env st) = ncclSuccess"
proof -
  assume a: "fst (le_ncclCpuBarrierIn env) = ncclSuccess"
  have "fst (run_steps [c_free intraBarrier, c_free intraParams, c_free intraCudaDevs,
                        c_free intraCGMode, c_free intraCC] st) = ncclSuccess"
    by (rule run_steps_all_success) (simp add: c_free_success)
  with a show ?thesis by (auto simp: barrier_step_def split: prod.splits)
qed

lemma release_result: "fst (release what result st) = result (fst st)"
  by (cases st) (simp add: release_def)

lemma when_step_result:
  "fst (when_step cond step st) = (if cond (fst st) then fst (step st) else ncclSuccess)"
  by (simp add: when_step_def)

lemma commFree_releases_success:
  assumes "lifecycle_calls_succeed env"
  shows "fst (run_steps (commFree_releases env m
                          @ [\<lambda>st. (ncclSuccess, (commPoison (fst st), snd st))]) st) = ncclSuccess"
proof (rule run_steps_all_success)
  have b: "\<And>s. fst (barrier_step env s) = ncclSuccess"
    using assms by (simp add: barrier_step_success lifecycle_calls_succeed_def)
  show "\<forall>f\<in>set (commFree_releases env m
                  @ [\<lambda>st. (ncclSuccess, (commPoison (fst st), snd st))]).
          \<forall>s. fst (f s) = ncclSuccess"
    unfolding commFree_releases_def
    using assms
    by (simp add: lifecycle_calls_succeed_def c_free_success release_result when_step_result b
          CUDACHECK_def ball_Un)
qed

lemma commFree_releases_block:
  assumes "lifecycle_calls_succeed env"
  shows "\<exists>w'. commFree env st = (ncclSuccess, (Released, w')) \<and> CommStruct \<in> set (released w')"
proof -
  obtain res s1 where
    r1: "run_steps (commFree_releases env (length (channels (fst st)))
                    @ [\<lambda>st. (ncclSuccess, (commPoison (fst st), snd st))]) st = (res, s1)"
    by (rule prod.exhaust)
  obtain comm w1 where s1: "s1 = (comm, w1)" by (rule prod.exhaust)
  from r1 s1 have
    r: "run_steps (commFree_releases env (length (channels (fst st)))
                    @ [\<lambda>st. (ncclSuccess, (commPoison (fst st), snd st))]) st = (res, (comm, w1))"
    by simp
  with commFree_releases_success [OF assms, of "length (channels (fst st))" st]
  have "res = ncclSuccess" by simp
  with r have "commFree env st
      = (ncclSuccess, (Released, w1\<lparr>released := released w1 @ [CommStruct]\<rparr>))"
    by (simp add: commFree_def)
  then show ?thesis by simp
qed

lemma commDestroy_releases_block:
  assumes "lifecycle_calls_succeed env"
  shows "\<exists>w'. commDestroy env st = (ncclSuccess, (Released, w')) \<and> CommStruct \<in> set (released w')"
proof -
  let ?saved = "device (snd st)" and ?dev = "cudaDev (fst st)"
  let ?before = "[when_step (\<lambda>comm. ?saved \<noteq> ?dev) (hipSetDevice_step env ?dev),
                  (\<lambda>st. (CUDACHECK (le_hipStreamSynchronize env), st)),
                  release (\<lambda>comm. ProxyState) (\<lambda>comm. le_ncclProxyDestroy env)]"
  have g: "CUDACHECK (le_hipGetDevice env) = ncclSuccess"
    using assms by (simp add: lifecycle_calls_succeed_def CUDACHECK_def)
  have "fst (run_steps ?before st) = ncclSuccess"
  proof (rule run_steps_all_success, intro ballI allI)
    fix f and s :: "ncclComm \<times> world"
    assume "f \<in> set ?before"
    then show "fst (f s) = ncclSuccess"
      using assms
      by (cases s)
         (auto simp: lifecycle_calls_succeed_def release_def when_step_def CUDACHECK_def
            hipSetDevice_step_def)
  qed
  moreover obtain comm w1 where "snd (run_steps ?before st) = (comm, w1)"
    by (rule prod.exhaust)
  ultimately have b: "run_steps ?before st = (ncclSuccess, (comm, w1))"
    by (simp add: prod_eq_iff)
  from commFree_releases_block [OF assms, of "(comm, w1)"] obtain w2 where
    f: "commFree env (comm, w1) = (ncclSuccess, (Released, w2))"
    and c: "CommStruct \<in> set (released w2)"
    by blast
  have s: "le_hipSetDevice env ?saved = hipSuccess"
    using assms by (simp add: lifecycle_calls_succeed_def)
  have "commDestroy env st =
          when_step (\<lambda>block. ?saved \<noteq> ?dev) (hipSetDevice_step env ?saved) (Released, w2)"
    using g b f by (simp add: commDestroy_def Let_def)
  with s c show ?thesis
    by (auto simp: when_step_def hipSetDevice_step_def)
qed

lemma ncclCommDestroy_releases_block:
  assumes "lifecycle_calls_succeed env" "valid_comm c"
  shows "\<exists>w'. ncclCommDestroy env (Some (Allocated c)) w = Inr (ncclSuccess, Some Released, w')
            \<and> CommStruct \<in> set (released w')
            \<and> ncclCommDestroy env2 (Some Released) w' = Inl UseAfterFree"
proof -
  let ?w1 = "if cliqueManager c \<noteq> 0
             then w\<lparr>released := released w @ [Clique (cliqueManager c)]\<rparr> else w"
  from commDestroy_releases_block [OF assms(1), of "(c, ?w1)"] obtain w' where
    "commDestroy env (c, ?w1) = (ncclSuccess, (Released, w'))" "CommStruct \<in> set (released w')"
    by blast
  then show ?thesis
    using ncclCommDestroy_valid [OF assms(2), of env w]
    by (simp add: ncclCommDestroy_def)
qed

lemma ncclCommDestroy_sync_failure:
  assumes "valid_comm c" "le_hipGetDevice env = hipSuccess"
    and "le_hipSetDevice env (cudaDev c) = hipSuccess"
    and "le_hipStreamSynchronize env \<noteq> hipSuccess"
  shows "\<exists>w'. ncclCommDestroy env (Some (Allocated c)) w
                = Inr (ncclUnhandledCudaError, Some (Allocated c), w')
            \<and> released w' = released w @ (if cliqueManager c \<noteq> 0
                                            then [Clique (cliqueManager c)] else [])"
  using assms
  by (simp add: ncclCommDestroy_valid commDestroy_def CUDACHECK_def Let_def when_step_def
        hipSetDevice_step_def)

text \<open>Claim C7 does not hold of the code.  The identity members are set to \<open>-1\<close> on the
  one path of \<^verbatim>\<open>commFree\<close> that reaches \<^verbatim>\<open>commPoison\<close>, and the next statement gives the
  structure back.  So, on a communicator with a clique manager, on device 1, destroyed
  from a thread on device 0:
  \<^item> when \<^verbatim>\<open>hipStreamSynchronize\<close> reports an error, the first destroy returns
    \<^verbatim>\<open>ncclUnhandledCudaError\<close> after it has deleted the clique manager, and leaves the
    structure with its identity members as they were; a second destroy through the same
    handle passes the test of the identity members and deletes the clique manager a second
    time, whether the runtime still reports the error or not; in the second case it goes
    on to release everything else;
  \<^item> when every call succeeds, the first destroy returns \<^verbatim>\<open>ncclSuccess\<close> with the
    structure released after the poisoning, and a second destroy through the same handle
    reads \<^verbatim>\<open>comm->rank\<close> in the released block: it has no result, where the claim has
    \<^verbatim>\<open>ncclInvalidArgument\<close>.\<close>

theorem ncclCommDestroy_second_destroy_not_rejected:
  "ncclCommDestroy ex_sync_fails_env (Some (Allocated ex_live_comm)) ex_world
     = Inr (ncclUnhandledCudaError, Some (Allocated ex_live_comm),
            ex_world\<lparr>released := [Clique 18], device := 1\<rparr>)
   \<and> ncclCommDestroy ex_sync_fails_env (Some (Allocated ex_live_comm))
        (ex_world\<lparr>released := [Clique 18], device := 1\<rparr>)
     = Inr (ncclUnhandledCudaError, Some (Allocated ex_live_comm),
            ex_world\<lparr>released := [Clique 18, Clique 18], device := 1\<rparr>)
   \<and> ncclCommDestroy ex_lifecycle_env (Some (Allocated ex_live_comm))
        (ex_world\<lparr>released := [Clique 18], device := 1\<rparr>)
     = Inr (ncclSuccess, Some Released,
            ex_world\<lparr>released :=
              [Clique 18, Clique 18, ProxyState, HostMem 12, HostMem 13, Topology 0,
               BootstrapState 11, DeviceMem 0, DeviceMem 0, ChannelSlot 0, ChannelSlot 1,
               Event 16, HostMem 17, PinnedMem 14, PinnedMem 15, CommStruct],
              device := 1\<rparr>)
   \<and> ncclCommDestroy ex_lifecycle_env (Some (Allocated ex_live_comm)) ex_world
     = Inr (ncclSuccess, Some Released,
            ex_world\<lparr>released :=
              [Clique 18, ProxyState, HostMem 12, HostMem 13, Topology 0,
               BootstrapState 11, DeviceMem 0, DeviceMem 0, ChannelSlot 0, ChannelSlot 1,
               Event 16, HostMem 17, PinnedMem 14, PinnedMem 15, CommStruct]\<rparr>)
   \<and> ncclCommDestroy ex_lifecycle_env (Some Released)
        (ex_world\<lparr>released :=
              [Clique 18, ProxyState, HostMem 12, HostMem 13, Topology 0,
               BootstrapState 11, DeviceMem 0, DeviceMem 0, ChannelSlot 0, ChannelSlot 1,
               Event 16, HostMem 17, PinnedMem 14, PinnedMem 15, CommStruct]\<rparr>)
     = Inl UseAfterFree"
  by (simp add: ncclCommDestroy_def commDestroy_def commFree_def commFree_releases_def
      commPoison_def ex_lifecycle_env_def ex_sync_fails_env_def ex_live_comm_def ex_world_def
      calloc_comm_def CUDACHECK_def when_step_def hipSetDevice_step_def release_def c_free_def
      barrier_step_def Let_def upt_rec)

text \<open>Claim C8.  On a handle to a communicator, abort returns \<^verbatim>\<open>ncclSuccess\<close>, leaves the
  content of the communicator as it is, releases nothing, leaves the current device, and
  changes pinned memory at the one address \<^verbatim>\<open>comm->abortFlag\<close>, which then holds 1.\<close>

theorem ncclCommAbort_only_sets_flag:
  "ncclCommAbort (Some (Allocated c)) w
     = Inr (ncclSuccess, Some (Allocated c), w\<lparr>pinned := (pinned w)(abortFlag c := 1)\<rparr>)
   \<and> released (snd (snd (projr (ncclCommAbort (Some (Allocated c)) w)))) = released w
   \<and> device (snd (snd (projr (ncclCommAbort (Some (Allocated c)) w)))) = device w
   \<and> pinned (snd (snd (projr (ncclCommAbort (Some (Allocated c)) w)))) (abortFlag c) = 1"
  by (simp add: ncclCommAbort_def)

text \<open>Claim C10.  Destroy and abort on a \<^verbatim>\<open>NULL\<close> handle return \<^verbatim>\<open>ncclSuccess\<close> and leave
  the process state as it is.\<close>

theorem null_handle_is_noop:
  "ncclCommDestroy env None w = Inr (ncclSuccess, None, w)
   \<and> ncclCommAbort None w = Inr (ncclSuccess, None, w)"
  by (simp add: ncclCommDestroy_def ncclCommAbort_def)

section \<open>The saved affinity is not restored on every exit\<close>

lemma initTransportsRank_connect_affinity:
  assumes "call_result env TopoSetAffinity = ncclSuccess"
  shows "snd (initTransportsRank_connect env comm affinity) =
     (if call_result env ComputeBuffSizes \<noteq> ncclSuccess
         \<or> (first_failure (call_result env) (ring_tree_calls comm) = ncclSuccess
            \<and> first_failure (call_result env) (collNet_calls env comm @ final_calls comm) \<noteq> ncclSuccess)
      then near_cpus env else affinity)"
  using assms by (simp add: initTransportsRank_connect_def Let_def)

text \<open>Claim C9 does not hold of the code.  With the affinity pinned to CPU 2 and the saved
  set \<open>{0,1,2,3}\<close>, a failure of \<^verbatim>\<open>ncclProxyCreate\<close>, of \<^verbatim>\<open>ncclTopoTuneModel\<close> or of
  \<^verbatim>\<open>computeBuffSizes\<close> returns the error with the affinity still \<open>{2}\<close>, while a failure of
  the ring \<^verbatim>\<open>ncclTransportP2pSetup\<close> returns it with \<open>{0,1,2,3}\<close> restored.\<close>

theorem initTransportsRank_connect_leaves_affinity_pinned:
  "initTransportsRank_connect (ex_connect_env ProxyCreate)
      (ex_live_comm\<lparr>nChannels := 2, nNodes := 1\<rparr>) {0, 1, 2, 3} = (ncclSystemError, {2})
   \<and> initTransportsRank_connect (ex_connect_env TopoTuneModel)
      (ex_live_comm\<lparr>nChannels := 2, nNodes := 1\<rparr>) {0, 1, 2, 3} = (ncclSystemError, {2})
   \<and> initTransportsRank_connect (ex_connect_env ComputeBuffSizes)
      (ex_live_comm\<lparr>nChannels := 2, nNodes := 1\<rparr>) {0, 1, 2, 3} = (ncclSystemError, {2})
   \<and> initTransportsRank_connect (ex_connect_env RingP2pSetup)
      (ex_live_comm\<lparr>nChannels := 2, nNodes := 1\<rparr>) {0, 1, 2, 3} = (ncclSystemError, {0, 1, 2, 3})
   \<and> {2} \<noteq> {0, 1, 2, 3 :: nat}"
  by (simp add: initTransportsRank_connect_def ex_connect_env_def ring_tree_calls_def
      collNet_calls_def final_calls_def ex_live_comm_def calloc_comm_def Let_def upt_rec)

end
